theory Spec2Isabelle
  imports Main "HOL-Library.Sublist"
begin

section \<open>JavaScript strings\<close>

text \<open>
  A JavaScript string is a sequence of UTF-16 code units; the regular expressions of
  \<^verbatim>\<open>tsv7_ult_quotes_to_origl_quotes.js\<close> carry no \<^verbatim>\<open>u\<close> flag, so they work on code
  units too. A string is modelled as the list of its code units, each a natural number.
  \<open>str\<close> reads an ASCII literal.
\<close>

type_synonym jsstring = "nat list"

definition str :: "string \<Rightarrow> jsstring" where
  "str s = map of_char s"

text \<open>The characters the source names: U+2026, \<^verbatim>\<open>&\<close>, U+05BE (maqaf), U+05C0 (paseq).\<close>

definition ELLIPSIS :: nat where "ELLIPSIS = 8230"
definition AMPERSAND :: nat where "AMPERSAND = 38"
definition HYPHEN :: nat where "HYPHEN = 45"
definition MAQAF :: nat where "MAQAF = 1470"
definition PASEQ :: nat where "PASEQ = 1472"
definition SPACE :: nat where "SPACE = 32"

text \<open>
  \<^verbatim>\<open>\s\<close> of a regular expression, and the characters \<^verbatim>\<open>trim\<close> and \<^verbatim>\<open>parseInt\<close> skip:
  WhiteSpace and LineTerminator of ECMAScript.
\<close>

definition isWhiteSpace :: "nat \<Rightarrow> bool" where
  "isWhiteSpace c \<longleftrightarrow>
     c \<in> {9, 10, 11, 12, 13, 32, 160, 5760, 8232, 8233, 8239, 8287, 12288, 65279}
     \<or> (8192 \<le> c \<and> c \<le> 8202)"

definition trim :: "jsstring \<Rightarrow> jsstring" where
  "trim s = rev (dropWhile isWhiteSpace (rev (dropWhile isWhiteSpace s)))"

text \<open>
  \<^verbatim>\<open>s.split(sep)\<close> where \<open>sep\<close> is one character or a class of single characters: the
  pieces between the separators, empty pieces kept; the empty string gives one empty piece.
\<close>

fun splitOn :: "(nat \<Rightarrow> bool) \<Rightarrow> jsstring \<Rightarrow> jsstring list" where
  "splitOn P [] = [[]]"
| "splitOn P (c # cs) =
     (if P c then [] # splitOn P cs
      else (case splitOn P cs of
              [] \<Rightarrow> [[c]]
            | seg # segs \<Rightarrow> (c # seg) # segs))"

text \<open>\<^verbatim>\<open>a.join(sep)\<close> on an array of strings.\<close>

fun join :: "jsstring \<Rightarrow> jsstring list \<Rightarrow> jsstring" where
  "join sep [] = []"
| "join sep [x] = x"
| "join sep (x # y # ys) = x @ sep @ join sep (y # ys)"

text \<open>\<^verbatim>\<open>s.indexOf(k) !== -1\<close> and \<^verbatim>\<open>s.includes(k)\<close>: \<open>k\<close> occurs in \<open>s\<close>.\<close>

fun includesStr :: "jsstring \<Rightarrow> jsstring \<Rightarrow> bool" where
  "includesStr [] k = (k = [])"
| "includesStr (c # cs) k = (prefix k (c # cs) \<or> includesStr cs k)"

text \<open>
  \<^verbatim>\<open>s.replace(pat, '')\<close> with a string pattern: the first occurrence of \<open>pat\<close> is removed,
  later ones stay.
\<close>

fun removeFirst :: "jsstring \<Rightarrow> jsstring \<Rightarrow> jsstring" where
  "removeFirst pat [] = []"
| "removeFirst pat (c # cs) =
     (if prefix pat (c # cs) then drop (length pat) (c # cs)
      else c # removeFirst pat cs)"

text \<open>
  \<^verbatim>\<open>s.replace(/([a-z])/, (match) => match.toUpperCase())\<close>: the first code unit in
  \<^verbatim>\<open>a\<close>..\<^verbatim>\<open>z\<close> becomes its capital, the rest of the string is untouched.
\<close>

fun upperFirstLetter :: "jsstring \<Rightarrow> jsstring" where
  "upperFirstLetter [] = []"
| "upperFirstLetter (c # cs) =
     (if 97 \<le> c \<and> c \<le> 122 then (c - 32) # cs else c # upperFirstLetter cs)"

text \<open>
  \<^verbatim>\<open>s.split(/ *\<dots> */)\<close> (the pattern is spaces, U+2026, spaces): the string is cut at
  every ellipsis, and the U+0020 spaces that touch an ellipsis go with it.
  \<open>stripSpacesRight\<close> removes the spaces at the end of a piece; \<open>skip\<close> is set while
  the spaces after an ellipsis are being consumed.
\<close>

definition stripSpacesRight :: "jsstring \<Rightarrow> jsstring" where
  "stripSpacesRight s = rev (dropWhile (\<lambda>c. c = SPACE) (rev s))"

fun splitEllipsisFrom :: "bool \<Rightarrow> jsstring \<Rightarrow> jsstring \<Rightarrow> jsstring list" where
  "splitEllipsisFrom skip acc [] = [rev acc]"
| "splitEllipsisFrom skip acc (c # cs) =
     (if c = ELLIPSIS then stripSpacesRight (rev acc) # splitEllipsisFrom True [] cs
      else if skip \<and> c = SPACE then splitEllipsisFrom True acc cs
      else splitEllipsisFrom False (c # acc) cs)"

definition splitEllipsis :: "jsstring \<Rightarrow> jsstring list" where
  "splitEllipsis s = splitEllipsisFrom False [] s"

text \<open>
  \<^verbatim>\<open>parseInt(s)\<close> with no radix: leading white space, an optional sign, an optional
  \<^verbatim>\<open>0x\<close> that selects base 16, then the longest run of digits; \<open>None\<close> is NaN.
  Numbers are integers here, where the code has doubles: the model is the code's value for
  numbers below \<open>2 ^ 53\<close>, where a double still holds every integer. From there on the
  code's \<^verbatim>\<open>parseInt\<close> rounds, and a range loop whose upper bound lies there need not end;
  the model says nothing reliable about such references.
\<close>

definition digitValue :: "nat \<Rightarrow> nat option" where
  "digitValue c =
     (if 48 \<le> c \<and> c \<le> 57 then Some (c - 48)
      else if 97 \<le> c \<and> c \<le> 122 then Some (c - 87)
      else if 65 \<le> c \<and> c \<le> 90 then Some (c - 55)
      else None)"

definition isDigitIn :: "nat \<Rightarrow> nat \<Rightarrow> bool" where
  "isDigitIn radix c = (case digitValue c of None \<Rightarrow> False | Some d \<Rightarrow> d < radix)"

definition digitsValue :: "nat \<Rightarrow> jsstring \<Rightarrow> nat" where
  "digitsValue radix ds = foldl (\<lambda>acc c. acc * radix + the (digitValue c)) 0 ds"

definition parseDigits :: "int \<Rightarrow> nat \<Rightarrow> jsstring \<Rightarrow> int option" where
  "parseDigits sign radix s =
     (let ds = takeWhile (isDigitIn radix) s
      in if ds = [] then None else Some (sign * int (digitsValue radix ds)))"

definition parseUnsigned :: "int \<Rightarrow> jsstring \<Rightarrow> int option" where
  "parseUnsigned sign s =
     (if prefix [48, 120] s \<or> prefix [48, 88] s then parseDigits sign 16 (drop 2 s)
      else parseDigits sign 10 s)"

definition parseInt :: "jsstring \<Rightarrow> int option" where
  "parseInt s =
     (case dropWhile isWhiteSpace s of
        [] \<Rightarrow> None
      | c # cs \<Rightarrow>
          if c = 45 then parseUnsigned (- 1) cs
          else if c = 43 then parseUnsigned 1 cs
          else parseUnsigned 1 (c # cs))"

text \<open>A number in a template literal: decimal digits, \<^verbatim>\<open>NaN\<close> for NaN.\<close>

function natToString :: "nat \<Rightarrow> jsstring" where
  "natToString n = (if n < 10 then [48 + n] else natToString (n div 10) @ [48 + n mod 10])"
  by pat_completeness auto
termination
  by (relation "measure (\<lambda>n. n)") auto

declare natToString.simps [simp del]

definition numberToString :: "int option \<Rightarrow> jsstring" where
  "numberToString v =
     (case v of
        None \<Rightarrow> str ''NaN''
      | Some i \<Rightarrow> if i < 0 then 45 # natToString (nat (- i)) else natToString (nat i))"

section \<open>Tokens and table rows\<close>

text \<open>
  A token of the alignment query: \<^verbatim>\<open>subType\<close>, \<^verbatim>\<open>payload\<close>, \<^verbatim>\<open>position\<close>, \<^verbatim>\<open>scopes\<close>.
  The gloss tokens are handed on as \<^verbatim>\<open>({ subType, position, ...rest }) => rest\<close>, that is
  with \<open>payload\<close> and \<open>scopes\<close> only: the \<open>slimToken\<close> part of the record.
\<close>

datatype subType = wordLike | punctuation | lineSpace | eol | otherSubType

record slimToken =
  payload :: jsstring
  scopes :: "jsstring list"

record token = slimToken +
  subType :: subType
  position :: nat

text \<open>
  A row of the table as \<^verbatim>\<open>parseTsvToObjects\<close> gives it. A field that is missing
  (\<^verbatim>\<open>undefined\<close>) is \<open>None\<close>. The code reads \<open>ref\<close>, \<open>quote\<close>, \<open>occurrence\<close> and
  \<open>id\<close> only.
\<close>

record tsvRecord =
  ref :: "jsstring option"
  id_field :: "jsstring option"
  quote :: "jsstring option"
  occurrence :: "jsstring option"
  otherFields :: "(jsstring \<times> jsstring) list"

datatype testament = old | new

text \<open>
  What the file imports and does not define, taken as parameters:
  \<^verbatim>\<open>slimSourceTokens\<close> (utils/tokens), \<^verbatim>\<open>parseTsvToObjects\<close> and
  \<^verbatim>\<open>tsvRecordToString\<close> (utils/tsv), the \<^verbatim>\<open>testament\<close> entry of \<^verbatim>\<open>BibleBookData\<close>
  (common/books; \<open>None\<close> when the book has no entry), \<^verbatim>\<open>JSON.stringify\<close> on the two
  token lists, and the case mappings of the book identifier.
\<close>

record externals =
  slimSourceTokens :: "token list \<Rightarrow> token list"
  parseTsvToObjects :: "jsstring \<Rightarrow> tsvRecord list"
  tsvRecordToString :: "tsvRecord \<Rightarrow> jsstring"
  BibleBookData :: "jsstring \<Rightarrow> testament option"
  stringifyULTTokens :: "slimToken list \<Rightarrow> jsstring"
  stringifySourceTokens :: "token list \<Rightarrow> jsstring"
  toLowerCase :: "jsstring \<Rightarrow> jsstring"
  toUpperCase :: "jsstring \<Rightarrow> jsstring"

text \<open>
  \<^verbatim>\<open>tokenLookup\<close> after \<^verbatim>\<open>getDocuments\<close> and \<^verbatim>\<open>doAlignmentQuery\<close> have run:
  translation abbreviation, then book code, then \<^verbatim>\<open>chapter:verse\<close>, to the verse's tokens.
\<close>

type_synonym tokenLookup = "jsstring \<rightharpoonup> (jsstring \<rightharpoonup> (jsstring \<rightharpoonup> token list))"

text \<open>
  How the promise can be rejected: a \<^verbatim>\<open>TypeError\<close> thrown while the rows are processed
  (a property read on \<^verbatim>\<open>undefined\<close>), or the message for an unknown book.
\<close>

datatype rejection = TypeError | NotAValidBook jsstring

text \<open>What \<^verbatim>\<open>origLFromGLQuote\<close> returns: \<^verbatim>\<open>{ data }\<close> or \<^verbatim>\<open>{ error }\<close>.\<close>

datatype resultObject = Data "jsstring list" | Error jsstring

section \<open>searchULTWordRecords\<close>

text \<open>The character class of the split: the hyphen, \<^verbatim>\<open>\s\<close> and U+05BE (maqaf).\<close>

definition isWordSeparator :: "nat \<Rightarrow> bool" where
  "isWordSeparator c \<longleftrightarrow> c = HYPHEN \<or> isWhiteSpace c \<or> c = MAQAF"

text \<open>The sentence punctuation removed from each search word, every occurrence of it.\<close>

definition isSentencePunctuation :: "nat \<Rightarrow> bool" where
  "isSentencePunctuation c \<longleftrightarrow>
     c \<in> {34, 39, 8220, 8216, 8221, 8217, 123, 125, 40, 41, 44, 63, 58, 59, 46, 33}"

text \<open>A search word, its follows-an-ellipsis flag, and the scopes once they are appended.\<close>

type_synonym threeTuple = "jsstring \<times> bool \<times> jsstring list option"

definition searchExprTuples :: "jsstring \<Rightarrow> threeTuple list" where
  "searchExprTuples searchExpr0 =
     (let searchExpr = filter (\<lambda>c. \<not> isSentencePunctuation c) searchExpr0
      in if ELLIPSIS \<in> set searchExpr
         then (case splitOn (\<lambda>c. c = ELLIPSIS) searchExpr of
                 [] \<Rightarrow> []
               | p0 # ps \<Rightarrow> (p0, False, None) # map (\<lambda>p. (p, True, None)) ps)
         else [(searchExpr, False, None)])"

definition intermediateSearchList :: "jsstring \<Rightarrow> threeTuple list" where
  "intermediateSearchList ULTSearchString =
     filter (\<lambda>t. fst t \<noteq> [PASEQ])
       (concat (map searchExprTuples (splitOn isWordSeparator ULTSearchString)))"

function getFirstWordIndex :: "jsstring \<Rightarrow> slimToken list \<Rightarrow> nat \<Rightarrow> nat option" where
  "getFirstWordIndex searchWord ULTTokenList startAt =
     (if startAt < length ULTTokenList
      then (if payload (ULTTokenList ! startAt) = searchWord then Some startAt
            else getFirstWordIndex searchWord ULTTokenList (Suc startAt))
      else None)"
  by pat_completeness auto
termination
  by (relation "measure (\<lambda>(w, ts, i). length ts - i)") auto

declare getFirstWordIndex.simps [simp del]

text \<open>
  The inner \<^verbatim>\<open>while\<close>: it leaves \<^verbatim>\<open>foundAllWords\<close> true unless a gloss token differs
  from its search word, and it stops when either list ends.
\<close>

function wordsFollow :: "slimToken list \<Rightarrow> threeTuple list \<Rightarrow> nat \<Rightarrow> nat \<Rightarrow> bool" where
  "wordsFollow ULTTokens searchList ultIndex searchIndex =
     (if ultIndex < length ULTTokens \<and> searchIndex < length searchList
      then (if payload (ULTTokens ! ultIndex) \<noteq> fst (searchList ! searchIndex) then False
            else wordsFollow ULTTokens searchList (Suc ultIndex) (Suc searchIndex))
      else True)"
  by pat_completeness auto
termination
  by (relation "measure (\<lambda>(ts, sl, i, j). length ts - i)") auto

declare wordsFollow.simps [simp del]

text \<open>The outer \<^verbatim>\<open>while\<close>: \<open>Some\<close> of the start index it breaks at, \<open>None\<close> for -1.\<close>

function findStartULTIndex ::
  "jsstring \<Rightarrow> slimToken list \<Rightarrow> threeTuple list \<Rightarrow> nat \<Rightarrow> nat option" where
  "findStartULTIndex firstWord ULTTokens searchList startULTIndex =
     (case getFirstWordIndex firstWord ULTTokens startULTIndex of
        None \<Rightarrow> None
      | Some i \<Rightarrow>
          if wordsFollow ULTTokens searchList (Suc i) 1 then Some i
          else findStartULTIndex firstWord ULTTokens searchList (Suc i))"
  by pat_completeness auto
termination
proof (relation "measure (\<lambda>(w, ts, sl, i). length ts - i)")
  show "wf (measure (\<lambda>(w, ts, sl, i). length (ts :: slimToken list) - i))"
    by simp
next
  fix firstWord :: jsstring and ULTTokens :: "slimToken list"
    and searchList :: "threeTuple list" and startULTIndex i :: nat
  assume found: "getFirstWordIndex firstWord ULTTokens startULTIndex = Some i"
  have "getFirstWordIndex w ts s = Some k \<Longrightarrow> s \<le> k \<and> k < length ts" for w ts s k
  proof (induction w ts s rule: getFirstWordIndex.induct)
    case (1 w ts s)
    have unfolded:
      "getFirstWordIndex w ts s =
         (if s < length ts
          then (if payload (ts ! s) = w then Some s else getFirstWordIndex w ts (Suc s))
          else None)"
      by (rule getFirstWordIndex.simps)
    show ?case
    proof (cases "s < length ts \<and> payload (ts ! s) \<noteq> w")
      case True
      with unfolded "1.prems" have "getFirstWordIndex w ts (Suc s) = Some k"
        by simp
      with True "1.IH" have "Suc s \<le> k \<and> k < length ts"
        by simp
      then show ?thesis
        by simp
    next
      case False
      with unfolded "1.prems" show ?thesis
        by (auto split: if_splits)
    qed
  qed
  from this [OF found]
  show "((firstWord, ULTTokens, searchList, Suc i),
         (firstWord, ULTTokens, searchList, startULTIndex))
        \<in> measure (\<lambda>(w, ts, sl, i). length ts - i)"
    by (simp, arith)
qed

declare findStartULTIndex.simps [simp del]

text \<open>The last \<^verbatim>\<open>while\<close>: the scopes of the matched gloss tokens are appended in place.\<close>

function appendScopes ::
  "slimToken list \<Rightarrow> nat \<Rightarrow> nat \<Rightarrow> threeTuple list \<Rightarrow> threeTuple list" where
  "appendScopes ULTTokens startULTIndex searchIndex searchList =
     (if startULTIndex < length ULTTokens \<and> searchIndex < length searchList
      then appendScopes ULTTokens (Suc startULTIndex) (Suc searchIndex)
             (searchList[searchIndex :=
                (fst (searchList ! searchIndex), fst (snd (searchList ! searchIndex)),
                 Some (scopes (ULTTokens ! startULTIndex)))])
      else searchList)"
  by pat_completeness auto
termination
  by (relation "measure (\<lambda>(ts, i, j, sl). length ts - i)") auto

declare appendScopes.simps [simp del]

text \<open>
  \<^verbatim>\<open>intermediateSearchList[0][0]\<close> throws when the list is empty, and
  \<^verbatim>\<open>ULTTokenList.length\<close> throws when the token list is \<^verbatim>\<open>undefined\<close> (\<open>None\<close>).
\<close>

definition searchULTWordRecords ::
  "jsstring \<Rightarrow> slimToken list option \<Rightarrow> rejection + threeTuple list" where
  "searchULTWordRecords ULTSearchString ULTTokens =
     (case intermediateSearchList ULTSearchString of
        [] \<Rightarrow> Inl TypeError
      | first # others \<Rightarrow>
          (case ULTTokens of
             None \<Rightarrow> Inl TypeError
           | Some tokens \<Rightarrow>
               (case findStartULTIndex (fst first) tokens (first # others) 0 of
                  None \<Rightarrow> Inr []
                | Some startULTIndex \<Rightarrow>
                    Inr (appendScopes tokens startULTIndex 0 (first # others)))))"

section \<open>origLFromGLQuote\<close>

text \<open>The key \<^verbatim>\<open>/word:\<close> that is looked for inside the scopes.\<close>

definition searchOrigLWord :: "jsstring \<Rightarrow> jsstring" where
  "searchOrigLWord origLWord = str ''/'' @ origLWord @ str '':''"

text \<open>
  The inner \<^verbatim>\<open>for\<close> over the three-tuples, for one original-language word: true when the
  word is pushed (and the loop left by \<^verbatim>\<open>break\<close>). A scopes array of one or two entries is
  searched; any other, a missing one too, is only logged.
\<close>

fun pushesWord :: "jsstring \<Rightarrow> threeTuple list \<Rightarrow> bool" where
  "pushesWord key [] = False"
| "pushesWord key ((word, followsEllipsis, scopesArray) # rest) =
     (case scopesArray of
        Some [s0] \<Rightarrow> if includesStr s0 key then True else pushesWord key rest
      | Some [s0, s1] \<Rightarrow>
          if includesStr s0 key \<or> includesStr s1 key then True else pushesWord key rest
      | _ \<Rightarrow> pushesWord key rest)"

definition origLQuoteWords :: "jsstring list \<Rightarrow> threeTuple list \<Rightarrow> jsstring list" where
  "origLQuoteWords origLWordList ULTSearchThreeTuples =
     filter (\<lambda>origLWord. pushesWord (searchOrigLWord origLWord) ULTSearchThreeTuples)
       origLWordList"

text \<open>A three-tuple and the list of them inside a template literal (\<^verbatim>\<open>Array.toString\<close>).\<close>

definition threeTupleToString :: "threeTuple \<Rightarrow> jsstring" where
  "threeTupleToString t =
     (case t of (word, followsEllipsis, scopesArray) \<Rightarrow>
        join (str '','')
          ([word, if followsEllipsis then str ''true'' else str ''false'']
           @ (case scopesArray of None \<Rightarrow> [] | Some ss \<Rightarrow> [join (str '','') ss])))"

definition emptyMatchMessage ::
  "externals \<Rightarrow> jsstring \<Rightarrow> jsstring \<Rightarrow> slimToken list \<Rightarrow> jsstring \<Rightarrow> jsstring \<Rightarrow>
   threeTuple list \<Rightarrow> token list \<Rightarrow> jsstring" where
  "emptyMatchMessage E book cv ULTTokens ULTSearchString searchOccurrence
     ULTSearchThreeTuples wordLikeOrigLTokens =
     str ''EMPTY MATCH IN OrigL SOURCE'' @ [10] @ str ''    Search String: ''
     @ book @ str '' '' @ cv @ str '' '' @ [39] @ ULTSearchString @ [39]
     @ str '' occurrence='' @ searchOccurrence @ [10]
     @ str ''      from ULTTokens ('' @ natToString (length ULTTokens) @ str '') ''
     @ stringifyULTTokens E ULTTokens @ [10]
     @ str ''       then ULTSearchThreeTuples (''
     @ natToString (length ULTSearchThreeTuples) @ str '') ''
     @ join (str '','') (map threeTupleToString ULTSearchThreeTuples) @ [10]
     @ str ''       then wordLikeOrigLTokens (''
     @ natToString (length wordLikeOrigLTokens) @ str '') ''
     @ stringifySourceTokens E wordLikeOrigLTokens"

text \<open>
  \<open>sourceTokens\<close> and \<open>ULTTokens\<close> are \<open>None\<close> when the caller found no entry for the
  verse (\<^verbatim>\<open>undefined\<close>); \<^verbatim>\<open>sourceTokens.filter\<close> throws then, as the search does
  (so \<open>ULTTokens\<close> is never \<open>None\<close> where the message is built).
\<close>

definition origLFromGLQuote ::
  "externals \<Rightarrow> jsstring \<Rightarrow> jsstring \<Rightarrow> token list option \<Rightarrow> slimToken list option \<Rightarrow>
   jsstring \<Rightarrow> jsstring \<Rightarrow> rejection + resultObject" where
  "origLFromGLQuote E book cv sourceTokens ULTTokens ULTSearchString searchOccurrence =
     (case searchULTWordRecords ULTSearchString ULTTokens of
        Inl e \<Rightarrow> Inl e
      | Inr ULTSearchThreeTuples \<Rightarrow>
          (case sourceTokens of
             None \<Rightarrow> Inl TypeError
           | Some tokens \<Rightarrow>
               (let wordLikeOrigLTokens =
                      slimSourceTokens E (filter (\<lambda>t. subType t = wordLike) tokens);
                    origLWordList = map payload wordLikeOrigLTokens;
                    quoteWords = origLQuoteWords origLWordList ULTSearchThreeTuples
                in if length quoteWords = 0
                   then Inr (Error (emptyMatchMessage E book cv
                                      (case ULTTokens of None \<Rightarrow> [] | Some ts \<Rightarrow> ts)
                                      ULTSearchString searchOccurrence ULTSearchThreeTuples
                                      wordLikeOrigLTokens))
                   else Inr (Data quoteWords))))"

section \<open>getTidiedData and containsHebrewOrGreek\<close>

text \<open>
  \<^verbatim>\<open>wordList.join(' ').replace(/\s*\<dots>\s*/, ' & ')\<close> (white space, U+2026, white space):
  only the first ellipsis, with the white space around it, is replaced.
\<close>

definition getTidiedData :: "jsstring list \<Rightarrow> jsstring" where
  "getTidiedData wordList =
     (let joined = join (str '' '') wordList
      in if ELLIPSIS \<in> set joined
         then rev (dropWhile isWhiteSpace (rev (takeWhile (\<lambda>c. c \<noteq> ELLIPSIS) joined)))
              @ str '' & ''
              @ dropWhile isWhiteSpace (tl (dropWhile (\<lambda>c. c \<noteq> ELLIPSIS) joined))
         else joined)"

definition isHebrewOrGreek :: "nat \<Rightarrow> bool" where
  "isHebrewOrGreek c \<longleftrightarrow>
     (1424 \<le> c \<and> c \<le> 1535) \<or> (64285 \<le> c \<and> c \<le> 64335)
     \<or> (880 \<le> c \<and> c \<le> 1023) \<or> (7936 \<le> c \<and> c \<le> 8191)"

definition containsHebrewOrGreek :: "jsstring \<Rightarrow> bool" where
  "containsHebrewOrGreek text = list_ex isHebrewOrGreek text"

section \<open>tsv7_ult_quotes_to_origl_quotes\<close>

definition QUOTE_NOT_FOUND :: jsstring where
  "QUOTE_NOT_FOUND = str ''QUOTE_NOT_FOUND: ''"

text \<open>
  \<^verbatim>\<open>output\<close> (here \<open>outputRows\<close>) and \<^verbatim>\<open>errors\<close>, which the promise resolves to,
  with \<^verbatim>\<open>nRecords\<close> and the two counters of \<^verbatim>\<open>counts\<close>, while the rows run.
\<close>

record runState =
  outputRows :: "jsstring list"
  errors :: "jsstring list"
  nRecords :: nat
  countsPass :: nat
  countsFail :: nat

subsection \<open>The verses of a reference\<close>

text \<open>
  One comma part of the verse reference: a part with a hyphen gives every integer from
  \<^verbatim>\<open>parseInt(verseRange[0])\<close> to \<^verbatim>\<open>parseInt(verseRange[1])\<close> (none when a bound
  is NaN, as \<^verbatim>\<open>i <= NaN\<close> is false, or when the range goes down); any other part gives
  \<^verbatim>\<open>parseInt(commaPart)\<close>, NaN included.
\<close>

definition versesOfCommaPart :: "jsstring \<Rightarrow> int option list" where
  "versesOfCommaPart commaPart =
     (if HYPHEN \<in> set commaPart
      then (let verseRange = splitOn (\<lambda>c. c = HYPHEN) (trim commaPart)
            in if length verseRange > 1
               then (case (parseInt (verseRange ! 0), parseInt (verseRange ! 1)) of
                       (Some a, Some b) \<Rightarrow> map Some [a..b]
                     | _ \<Rightarrow> [])
               else [])
      else [parseInt commaPart])"

definition versesOfRef :: "jsstring \<Rightarrow> int option list" where
  "versesOfRef verseRef =
     concat (map versesOfCommaPart (splitOn (\<lambda>c. c = 44) (trim verseRef)))"

subsection \<open>The quotes to try\<close>

datatype quoteToTry = QuoteString jsstring | QuoteParts "jsstring list"

definition cleanQuoteOf :: "jsstring \<Rightarrow> jsstring" where
  "cleanQuoteOf q =
     filter (\<lambda>c. c \<noteq> 123 \<and> c \<noteq> 125) (map (\<lambda>c. if c = AMPERSAND then ELLIPSIS else c) q)"

definition quotesToTry :: "jsstring \<Rightarrow> quoteToTry list" where
  "quotesToTry q =
     (let cleanQuote = cleanQuoteOf q;
          cleanQuoteUC = upperFirstLetter cleanQuote
      in [QuoteString cleanQuote]
         @ (if q \<noteq> cleanQuote then [QuoteString q] else [])
         @ (if ELLIPSIS \<in> set cleanQuote
            then [QuoteParts (splitEllipsis cleanQuote)]
                 @ (if q \<noteq> cleanQuote then [QuoteParts (splitEllipsis q)] else [])
            else [])
         @ (if cleanQuote \<noteq> cleanQuoteUC
            then [QuoteString cleanQuoteUC]
                 @ (if ELLIPSIS \<in> set cleanQuoteUC
                    then [QuoteParts (splitEllipsis cleanQuoteUC)] else [])
            else []))"

subsection \<open>One verse\<close>

text \<open>
  The loop over the parts of a list-valued quote. \<open>resolve\<close> is \<^verbatim>\<open>origLFromGLQuote\<close> with
  everything but the search string fixed. The loop returns \<^verbatim>\<open>resultObject\<close> and
  \<^verbatim>\<open>partsConverted\<close> as it leaves them.
\<close>

fun convertParts ::
  "(jsstring \<Rightarrow> rejection + resultObject) \<Rightarrow> jsstring list \<Rightarrow> resultObject option \<Rightarrow>
   jsstring list \<Rightarrow> rejection + (resultObject option \<times> jsstring list)" where
  "convertParts resolve [] resultObject partsConverted = Inr (resultObject, partsConverted)"
| "convertParts resolve (part # rest) resultObject partsConverted =
     (case resolve part of
        Inl e \<Rightarrow> Inl e
      | Inr (Data d) \<Rightarrow>
          convertParts resolve rest (Some (Data d)) (partsConverted @ [getTidiedData d])
      | Inr (Error m) \<Rightarrow>
          (case resolve (upperFirstLetter part) of
             Inl e \<Rightarrow> Inl e
           | Inr (Data d) \<Rightarrow>
               convertParts resolve rest (Some (Data d)) (partsConverted @ [getTidiedData d])
           | Inr (Error m') \<Rightarrow> Inr (Some (Error m'), partsConverted)))"

text \<open>
  The loop over \<^verbatim>\<open>quotesToTry\<close>; it returns \<^verbatim>\<open>resultObject\<close> (\<open>None\<close> is \<^verbatim>\<open>null\<close>).
  Setting \<^verbatim>\<open>resultObject.data\<close> makes the object one that has \<^verbatim>\<open>data\<close>, which is all
  that is read of it afterwards.
\<close>

fun tryQuotes ::
  "(jsstring \<Rightarrow> rejection + resultObject) \<Rightarrow> quoteToTry list \<Rightarrow> resultObject option \<Rightarrow>
   rejection + resultObject option" where
  "tryQuotes resolve [] resultObject = Inr resultObject"
| "tryQuotes resolve (QuoteString q # rest) resultObject =
     (case resolve q of
        Inl e \<Rightarrow> Inl e
      | Inr (Data d) \<Rightarrow> Inr (Some (Data d))
      | Inr (Error m) \<Rightarrow> tryQuotes resolve rest (Some (Error m)))"
| "tryQuotes resolve (QuoteParts parts # rest) resultObject =
     (case convertParts resolve parts resultObject [] of
        Inl e \<Rightarrow> Inl e
      | Inr (resultObject', partsConverted) \<Rightarrow>
          if length partsConverted = length parts
          then (case resultObject' of
                  None \<Rightarrow> Inl TypeError
                | Some r \<Rightarrow> Inr (Some (Data [join (str '' & '') partsConverted])))
          else tryQuotes resolve rest resultObject')"

text \<open>
  \<^verbatim>\<open>tokenLookup[abbr][book.toUpperCase()][cv]\<close>: reading a property of \<^verbatim>\<open>undefined\<close>
  throws; a verse without an entry is \<^verbatim>\<open>undefined\<close>, which is handed on.
\<close>

definition lookupVerse ::
  "externals \<Rightarrow> tokenLookup \<Rightarrow> jsstring \<Rightarrow> jsstring \<Rightarrow> jsstring \<Rightarrow>
   rejection + token list option" where
  "lookupVerse E tokenLookup abbr book cv =
     (case tokenLookup abbr of
        None \<Rightarrow> Inl TypeError
      | Some documents \<Rightarrow>
          (case documents (toUpperCase E book) of
             None \<Rightarrow> Inl TypeError
           | Some verses \<Rightarrow> Inr (verses cv)))"

definition restOfToken :: "token \<Rightarrow> slimToken" where
  "restOfToken t = \<lparr>payload = payload t, scopes = scopes t\<rparr>"

text \<open>
  The body of the loop over the verses, up to the end of the loop over the quotes:
  the \<^verbatim>\<open>resultObject\<close> for the verse \<open>cv\<close>. \<^verbatim>\<open>'data' in null\<close> throws.
\<close>

definition resolveVerse ::
  "externals \<Rightarrow> tokenLookup \<Rightarrow> testament \<Rightarrow> jsstring \<Rightarrow> jsstring \<Rightarrow> jsstring \<Rightarrow> jsstring \<Rightarrow>
   rejection + resultObject" where
  "resolveVerse E tokenLookup testament book cv q occ =
     (case lookupVerse E tokenLookup (if testament = old then str ''uhb'' else str ''ugnt'')
             book cv of
        Inl e \<Rightarrow> Inl e
      | Inr sourceTokens \<Rightarrow>
          (case lookupVerse E tokenLookup (str ''ult'') book cv of
             Inl e \<Rightarrow> Inl e
           | Inr allULTTokens \<Rightarrow>
               (let wordLikeULTTokens =
                      map_option
                        (\<lambda>ts. map restOfToken (filter (\<lambda>t. subType t = wordLike) ts))
                        allULTTokens
                in case tryQuotes
                          (\<lambda>s. origLFromGLQuote E book cv sourceTokens wordLikeULTTokens s occ)
                          (quotesToTry q) None of
                     Inl e \<Rightarrow> Inl e
                   | Inr None \<Rightarrow> Inl TypeError
                   | Inr (Some r) \<Rightarrow> Inr r)))"

subsection \<open>One row\<close>

definition failureMessage :: "jsstring \<Rightarrow> jsstring \<Rightarrow> tsvRecord \<Rightarrow> jsstring \<Rightarrow> jsstring" where
  "failureMessage book cv tsvRecord err =
     str ''Error: '' @ book @ str '' '' @ cv @ str '' ''
     @ (case id_field tsvRecord of None \<Rightarrow> str ''undefined'' | Some i \<Rightarrow> i)
     @ str '' '' @ err"

text \<open>
  The loop over \<open>verses\<close>, for a row whose quote \<open>q\<close> and occurrence \<open>occ\<close> are present.
  A verse that resolves is committed and ends the loop; a verse that does not is skipped
  unless it is the last one, which commits the failure.
\<close>

fun resolveVerses ::
  "externals \<Rightarrow> tokenLookup \<Rightarrow> testament \<Rightarrow> jsstring \<Rightarrow> tsvRecord \<Rightarrow> jsstring \<Rightarrow> jsstring \<Rightarrow>
   jsstring \<Rightarrow> int option list \<Rightarrow> runState \<Rightarrow> rejection + runState" where
  "resolveVerses E tokenLookup testament book tsvRecord q occ chapter [] st = Inr st"
| "resolveVerses E tokenLookup testament book tsvRecord q occ chapter (verse # rest) st =
     (let cv = chapter @ str '':'' @ numberToString verse
      in case resolveVerse E tokenLookup testament book cv q occ of
           Inl e \<Rightarrow> Inl e
         | Inr (Data d) \<Rightarrow>
             Inr (st\<lparr>countsPass := countsPass st + 1,
                     outputRows := outputRows st
                       @ [tsvRecordToString E (tsvRecord\<lparr>quote := Some (getTidiedData d)\<rparr>)]\<rparr>)
         | Inr (Error err) \<Rightarrow>
             if rest \<noteq> []
             then resolveVerses E tokenLookup testament book tsvRecord q occ chapter rest st
             else Inr (st\<lparr>outputRows := outputRows st
                            @ [tsvRecordToString E
                                 (tsvRecord\<lparr>quote := Some (QUOTE_NOT_FOUND @ q)\<rparr>)],
                          countsFail := countsFail st + 1,
                          errors := errors st @ [failureMessage book cv tsvRecord err]\<rparr>))"

text \<open>The test of line 301: the row is pushed as it is and nothing else happens to it.\<close>

definition passedThrough :: "tsvRecord \<Rightarrow> bool" where
  "passedThrough tsvRecord =
     (case ref tsvRecord of
        None \<Rightarrow> True
      | Some r \<Rightarrow>
          r = []
          \<or> (case quote tsvRecord of None \<Rightarrow> True | Some q \<Rightarrow> trim q = [])
          \<or> (case occurrence tsvRecord of None \<Rightarrow> True | Some occ \<Rightarrow> occ = [])
          \<or> r = str ''Reference''
          \<or> (case quote tsvRecord of None \<Rightarrow> False | Some q \<Rightarrow> containsHebrewOrGreek q))"

text \<open>
  The body of the loop over the rows. \<^verbatim>\<open>const [chapter, verseRef] = ref.split(':')\<close>
  leaves \<^verbatim>\<open>verseRef\<close> \<^verbatim>\<open>undefined\<close> when the reference has no colon, and
  \<^verbatim>\<open>verseRef.trim()\<close> throws then.
\<close>

definition processRecord ::
  "externals \<Rightarrow> tokenLookup \<Rightarrow> testament \<Rightarrow> jsstring \<Rightarrow> runState \<Rightarrow> tsvRecord \<Rightarrow>
   rejection + runState" where
  "processRecord E tokenLookup testament book st0 tsvRecord =
     (let st = st0\<lparr>nRecords := nRecords st0 + 1\<rparr>
      in if passedThrough tsvRecord
         then Inr (st\<lparr>outputRows := outputRows st @ [tsvRecordToString E tsvRecord]\<rparr>)
         else (case (ref tsvRecord, quote tsvRecord, occurrence tsvRecord) of
                 (Some r, Some q0, Some occ) \<Rightarrow>
                   (let q = removeFirst QUOTE_NOT_FOUND q0;
                        tsvRecord' = tsvRecord\<lparr>quote := Some q\<rparr>
                    in case splitOn (\<lambda>c. c = 58) r of
                         chapter # verseRef # further \<Rightarrow>
                           resolveVerses E tokenLookup testament book tsvRecord' q occ chapter
                             (versesOfRef verseRef) st
                       | _ \<Rightarrow> Inl TypeError)
               | _ \<Rightarrow> Inr (st\<lparr>outputRows := outputRows st @ [tsvRecordToString E tsvRecord]\<rparr>)))"

fun processRecords ::
  "externals \<Rightarrow> tokenLookup \<Rightarrow> testament \<Rightarrow> jsstring \<Rightarrow> runState \<Rightarrow> tsvRecord list \<Rightarrow>
   rejection + runState" where
  "processRecords E tokenLookup testament book st [] = Inr st"
| "processRecords E tokenLookup testament book st (tsvRecord # rest) =
     (case processRecord E tokenLookup testament book st tsvRecord of
        Inl e \<Rightarrow> Inl e
      | Inr st' \<Rightarrow> processRecords E tokenLookup testament book st' rest)"

text \<open>
  The exported function. \<open>tokenLookup\<close> is the table the rows are resolved against, after
  the documents were fetched and queried. An unknown book rejects the promise with the
  message; an exception while the rows run rejects it too; otherwise it resolves to
  \<^verbatim>\<open>{ output, errors }\<close>.
\<close>

definition tsv7_ult_quotes_to_origl_quotes ::
  "externals \<Rightarrow> tokenLookup \<Rightarrow> jsstring \<Rightarrow> jsstring \<Rightarrow> rejection + (jsstring list \<times> jsstring list)"
  where
  "tsv7_ult_quotes_to_origl_quotes E tokenLookup book tsvContent =
     (case BibleBookData E (toLowerCase E book) of
        None \<Rightarrow> Inl (NotAValidBook (str ''ERROR: Book '' @ book @ str '' not a valid Bible book''))
      | Some testament \<Rightarrow>
          (case processRecords E tokenLookup testament book
                  \<lparr>outputRows = [], errors = [], nRecords = 0, countsPass = 0, countsFail = 0\<rparr>
                  (parseTsvToObjects E tsvContent) of
             Inl e \<Rightarrow> Inl e
           | Inr st \<Rightarrow> Inr (outputRows st, errors st)))"

subsection \<open>A match as far as the verse goes\<close>

text \<open>
  The start index \<open>i\<close> is inside the gloss tokens, and every search word whose place
  \<open>i + k\<close> is still inside them equals the payload there.
\<close>

definition matchesUpToEnd :: "slimToken list \<Rightarrow> threeTuple list \<Rightarrow> nat \<Rightarrow> bool" where
  "matchesUpToEnd toks sl i =
     (i < length toks
      \<and> list_all (\<lambda>k. if i + k < length toks then payload (toks ! (i + k)) = fst (sl ! k) else True)
          [0..<length sl])"

subsection \<open>Rows that reach the loop over the verses\<close>

text \<open>
  \<open>verseless\<close> holds of a row that is processed, has a colon in its reference, and whose
  verse reference expands to no verse at all.
\<close>

definition verseless :: "tsvRecord \<Rightarrow> bool" where
  "verseless tsvRecord =
     (if passedThrough tsvRecord then False
      else (case ref tsvRecord of
              None \<Rightarrow> False
            | Some r \<Rightarrow>
                (case splitOn (\<lambda>c. c = 58) r of
                   chapter # verseRef # further \<Rightarrow> versesOfRef verseRef = []
                 | _ \<Rightarrow> False)))"

subsection \<open>Comparing two results\<close>

text \<open>
  Two results of \<^verbatim>\<open>origLFromGLQuote\<close> are alike when both hold the same data or both
  hold an error, whatever the error strings say.
\<close>

definition sameOutcome :: "resultObject \<Rightarrow> resultObject \<Rightarrow> bool" where
  "sameOutcome a b =
     (case a of
        Data d \<Rightarrow> b = Data d
      | Error m \<Rightarrow> (case b of Data d \<Rightarrow> False | Error m' \<Rightarrow> True))"

section \<open>Sample data\<close>

text \<open>
  A small table of tokens and concrete stand-ins for the imported functions, on which the
  theorems below are run. The serializer writes \<open>ref\<close>, \<open>id\<close>, \<open>quote\<close> and
  \<open>occurrence\<close> with tabs between them; the parser returns the rows it is given.
\<close>

definition fieldText :: "jsstring option \<Rightarrow> jsstring" where
  "fieldText f = (case f of None \<Rightarrow> [] | Some s \<Rightarrow> s)"

definition sampleRowToString :: "tsvRecord \<Rightarrow> jsstring" where
  "sampleRowToString r =
     join [9] [fieldText (ref r), fieldText (id_field r), fieldText (quote r),
               fieldText (occurrence r)]"

definition sampleExternals :: "tsvRecord list \<Rightarrow> externals" where
  "sampleExternals rows =
     \<lparr>slimSourceTokens = (\<lambda>ts. ts),
      parseTsvToObjects = (\<lambda>tsvContent. rows),
      tsvRecordToString = sampleRowToString,
      BibleBookData = (\<lambda>b. if b = str ''mat'' then Some new
                            else if b = str ''gen'' then Some old else None),
      stringifyULTTokens = (\<lambda>ts. join (str '','') (map payload ts)),
      stringifySourceTokens = (\<lambda>ts. join (str '','') (map payload ts)),
      toLowerCase = map (\<lambda>c. if 65 \<le> c \<and> c \<le> 90 then c + 32 else c),
      toUpperCase = map (\<lambda>c. if 97 \<le> c \<and> c \<le> 122 then c - 32 else c)\<rparr>"

definition sampleToken :: "subType \<Rightarrow> string \<Rightarrow> string list \<Rightarrow> token" where
  "sampleToken ty p ss = \<lparr>payload = str p, scopes = map str ss, subType = ty, position = 0\<rparr>"

definition sampleRow :: "string \<Rightarrow> string \<Rightarrow> string \<Rightarrow> tsvRecord" where
  "sampleRow r q occ =
     \<lparr>ref = Some (str r), id_field = Some (str ''ab12''), quote = Some (str q),
      occurrence = Some (str occ), otherFields = []\<rparr>"

definition sampleULT :: "jsstring \<rightharpoonup> token list" where
  "sampleULT =
     map_of
       [(str ''5:3'', [sampleToken wordLike ''Blessed'' [''x-align/makarioi:1''],
                       sampleToken wordLike ''are'' [''x-align/makarioi:1''],
                       sampleToken wordLike ''they'' [''x-align/makarioi:1'']]),
        (str ''5:4'', [sampleToken wordLike ''who'' [''x-align/penthountes:1''],
                       sampleToken wordLike ''mourn'' [''x-align/penthountes:1''],
                       sampleToken punctuation '','' [],
                       sampleToken wordLike ''the'' [''x-align/hoi:1''],
                       sampleToken wordLike ''poor'' [''x-align/ptochoi:1'']]),
        (str ''5:5'', []),
        (str ''5:43'', [sampleToken wordLike ''love'' [''x-align/agapeseis:1''],
                        sampleToken wordLike ''&'' [''x-align/ton:1''],
                        sampleToken wordLike ''neighbor'' [''x-align/plesion:1'']])]"

definition sampleUGNT :: "jsstring \<rightharpoonup> token list" where
  "sampleUGNT =
     map_of
       [(str ''5:3'', [sampleToken wordLike ''makarioi'' []]),
        (str ''5:4'', [sampleToken wordLike ''hoi'' [],
                       sampleToken wordLike ''ptochoi'' [],
                       sampleToken wordLike ''penthountes'' []]),
        (str ''5:5'', []),
        (str ''5:43'', [sampleToken wordLike ''agapeseis'' [],
                        sampleToken wordLike ''ton'' [],
                        sampleToken wordLike ''plesion'' []])]"

definition sampleLookup :: tokenLookup where
  "sampleLookup =
     map_of [(str ''ult'', map_of [(str ''MAT'', sampleULT)]),
             (str ''ugnt'', map_of [(str ''MAT'', sampleUGNT)])]"

definition emptyState :: runState where
  "emptyState = \<lparr>outputRows = [], errors = [], nRecords = 0, countsPass = 0, countsFail = 0\<rparr>"

section \<open>Evaluation rules\<close>

lemmas string_defs =
  str_def ELLIPSIS_def AMPERSAND_def HYPHEN_def MAQAF_def PASEQ_def SPACE_def
  isWhiteSpace_def isWordSeparator_def isSentencePunctuation_def trim_def
  stripSpacesRight_def splitEllipsis_def

lemmas search_defs =
  searchULTWordRecords_def intermediateSearchList_def searchExprTuples_def
  getFirstWordIndex.simps wordsFollow.simps findStartULTIndex.simps appendScopes.simps

lemmas sample_defs =
  sampleExternals_def sampleRowToString_def fieldText_def sampleToken_def sampleRow_def
  sampleULT_def sampleUGNT_def sampleLookup_def emptyState_def

section \<open>Rows that are passed through\<close>

text \<open>
  C8. A row whose quote contains a Hebrew or Greek character, or whose quote is missing or
  empty, or whose reference is the header label \<^verbatim>\<open>Reference\<close>, is pushed to the output as
  it stands: the row handed to the serializer is the input row itself, and neither the
  error list nor the two counters change.
\<close>

theorem passed_through_unchanged:
  assumes "(\<exists>q. quote r = Some q \<and> containsHebrewOrGreek q) \<or> quote r = None
           \<or> quote r = Some [] \<or> ref r = Some (str ''Reference'')"
  shows "processRecord E tokenLookup testament book st r =
           Inr (st\<lparr>nRecords := nRecords st + 1,
                   outputRows := outputRows st @ [tsvRecordToString E r]\<rparr>)"
proof -
  from assms have "passedThrough r"
    by (auto simp: passedThrough_def trim_def split: option.splits)
  then show ?thesis
    by (simp add: processRecord_def Let_def)
qed

theorem passed_through_unchanged_witness:
  "containsHebrewOrGreek [1500, 1488]
   \<and> processRecord (sampleExternals []) sampleLookup new (str ''MAT'') emptyState
        ((sampleRow ''5:3'' ''x'' ''1'')\<lparr>quote := Some [1500, 1488]\<rparr>)
      = Inr (emptyState\<lparr>nRecords := 1,
               outputRows := [str ''5:3'' @ [9] @ str ''ab12'' @ [9] @ [1500, 1488] @ [9]
                              @ str ''1'']\<rparr>)"
proof -
  have hebrew: "containsHebrewOrGreek [1500, 1488]"
    by (simp add: containsHebrewOrGreek_def isHebrewOrGreek_def)
  have "(\<exists>q. quote ((sampleRow ''5:3'' ''x'' ''1'')\<lparr>quote := Some [1500, 1488]\<rparr>) = Some q
          \<and> containsHebrewOrGreek q)"
    using hebrew by simp
  then show ?thesis
    using hebrew
      passed_through_unchanged [of "(sampleRow ''5:3'' ''x'' ''1'')\<lparr>quote := Some [1500, 1488]\<rparr>"
        "sampleExternals []" sampleLookup new "str ''MAT''" emptyState]
    by (simp add: sample_defs str_def)
qed

lemmas resolve_defs =
  origLFromGLQuote_def origLQuoteWords_def searchOrigLWord_def getTidiedData_def
  resolveVerse_def lookupVerse_def restOfToken_def quotesToTry_def cleanQuoteOf_def
  Let_def

lemmas row_defs =
  processRecord_def passedThrough_def containsHebrewOrGreek_def isHebrewOrGreek_def
  versesOfRef_def versesOfCommaPart_def parseInt_def parseUnsigned_def parseDigits_def
  digitsValue_def isDigitIn_def digitValue_def numberToString_def natToString.simps
  QUOTE_NOT_FOUND_def tsv7_ult_quotes_to_origl_quotes_def

section \<open>The projection\<close>

lemma includesStr_iff_sublist: "includesStr s k \<longleftrightarrow> sublist k s"
  by (induction s) (simp_all add: sublist_Cons_right)

lemma pushesWord_names:
  "pushesWord key triples \<Longrightarrow>
     \<exists>t\<in>set triples. \<exists>refs. snd (snd t) = Some refs \<and> (\<exists>r\<in>set refs. includesStr r key)"
proof (induction key triples rule: pushesWord.induct)
  case (1 key)
  then show ?case by simp
next
  case (2 key word followsEllipsis scopesArray rest)
  then show ?case
    by (auto split: option.splits list.splits if_splits)
qed

lemma origLFromGLQuote_cases:
  assumes "origLFromGLQuote E book cv sourceTokens ULTTokens s occ = Inr res"
  obtains triples src where
    "searchULTWordRecords s ULTTokens = Inr triples"
    "sourceTokens = Some src"
    "res = (let origL = slimSourceTokens E (filter (\<lambda>t. subType t = wordLike) src);
                ws = origLQuoteWords (map payload origL) triples
            in if ws = []
               then Error (emptyMatchMessage E book cv
                             (case ULTTokens of None \<Rightarrow> [] | Some ts \<Rightarrow> ts) s occ triples origL)
               else Data ws)"
  using assms
  by (auto simp: origLFromGLQuote_def Let_def split: sum.splits option.splits if_splits)

text \<open>
  C4. When \<^verbatim>\<open>origLFromGLQuote\<close> returns \<^verbatim>\<open>{ data }\<close>, every word of the data has, among
  the three-tuples the search returned, one whose scopes hold a reference that contains
  \<^verbatim>\<open>/word:\<close>; and the data is a subsequence of the verse's original-language words, so
  each word of the verse is emitted at most once, however many three-tuples name it.
\<close>

theorem projection_sound:
  assumes "origLFromGLQuote E book cv sourceTokens ULTTokens s occ = Inr (Data ws)"
  shows "\<exists>triples src.
           searchULTWordRecords s ULTTokens = Inr triples \<and> sourceTokens = Some src
           \<and> (\<forall>w\<in>set ws. \<exists>t\<in>set triples. \<exists>refs. snd (snd t) = Some refs
                  \<and> (\<exists>r\<in>set refs. sublist (str ''/'' @ w @ str '':'') r))
           \<and> subseq ws
               (map payload (slimSourceTokens E (filter (\<lambda>t. subType t = wordLike) src)))"
proof -
  from assms obtain triples src where
    search: "searchULTWordRecords s ULTTokens = Inr triples" and
    src: "sourceTokens = Some src" and
    ws: "ws = origLQuoteWords
                (map payload (slimSourceTokens E (filter (\<lambda>t. subType t = wordLike) src)))
                triples"
    by (elim origLFromGLQuote_cases) (auto simp: Let_def split: if_splits)
  have "\<exists>t\<in>set triples. \<exists>refs. snd (snd t) = Some refs
          \<and> (\<exists>r\<in>set refs. sublist (str ''/'' @ w @ str '':'') r)"
    if "w \<in> set ws" for w
  proof -
    from that ws have "pushesWord (searchOrigLWord w) triples"
      by (simp add: origLQuoteWords_def)
    from pushesWord_names [OF this] show ?thesis
      by (simp add: includesStr_iff_sublist searchOrigLWord_def)
  qed
  moreover have "subseq ws
      (map payload (slimSourceTokens E (filter (\<lambda>t. subType t = wordLike) src)))"
    by (simp add: ws origLQuoteWords_def)
  ultimately show ?thesis
    using search src by blast
qed

theorem projection_sound_witness:
  "origLFromGLQuote (sampleExternals []) (str ''MAT'') (str ''5:3'') (sampleUGNT (str ''5:3''))
     (map_option (map restOfToken) (sampleULT (str ''5:3''))) (str ''Blessed are'') (str ''1'')
     = Inr (Data [str ''makarioi''])
   \<and> (\<exists>triples src.
         searchULTWordRecords (str ''Blessed are'')
           (map_option (map restOfToken) (sampleULT (str ''5:3''))) = Inr triples
         \<and> sampleUGNT (str ''5:3'') = Some src
         \<and> (\<forall>w\<in>set [str ''makarioi'']. \<exists>t\<in>set triples. \<exists>refs. snd (snd t) = Some refs
                \<and> (\<exists>r\<in>set refs. sublist (str ''/'' @ w @ str '':'') r))
         \<and> subseq [str ''makarioi'']
             (map payload (slimSourceTokens (sampleExternals [])
                             (filter (\<lambda>t. subType t = wordLike) src))))"
proof -
  have run: "origLFromGLQuote (sampleExternals []) (str ''MAT'') (str ''5:3'')
      (sampleUGNT (str ''5:3'')) (map_option (map restOfToken) (sampleULT (str ''5:3'')))
      (str ''Blessed are'') (str ''1'') = Inr (Data [str ''makarioi''])"
    by (simp add: resolve_defs sample_defs string_defs search_defs)
  from projection_sound [OF run] run show ?thesis
    by blast
qed

text \<open>
  The words are taken place by place: a word that stands twice in the verse is emitted once
  for each of its places.
\<close>

lemma repeated_word_is_emitted_per_place:
  "origLQuoteWords [str ''kai'', str ''kai''] [(str ''and'', False, Some [str ''x-align/kai:1''])]
   = [str ''kai'', str ''kai'']"
  by (simp add: origLQuoteWords_def searchOrigLWord_def str_def)

lemma sublist_skip: "sublist x r \<Longrightarrow> sublist x (p @ r)"
  by (metis append.assoc sublist_def)

lemma emptyMatchMessage_embeds:
  fixes E book cv ULTTokens s occ triples origL
  defines "msg \<equiv> emptyMatchMessage E book cv ULTTokens s occ triples origL"
  shows "sublist s msg"
    and "sublist occ msg"
    and "sublist (stringifyULTTokens E ULTTokens) msg"
    and "sublist (join (str '','') (map threeTupleToString triples)) msg"
    and "sublist (stringifySourceTokens E origL) msg"
  unfolding msg_def emptyMatchMessage_def
  by (rule sublist_append_rightI | rule sublist_skip | rule sublist_order.order_refl)+

lemma pushesWord_iff:
  "pushesWord key triples \<longleftrightarrow>
     (\<exists>t\<in>set triples. \<exists>refs. snd (snd t) = Some refs
        \<and> (length refs = 1 \<or> length refs = 2) \<and> (\<exists>r\<in>set refs. includesStr r key))"
proof (induction key triples rule: pushesWord.induct)
  case (1 key)
  then show ?case by simp
next
  case (2 key word followsEllipsis scopesArray rest)
  show ?case
  proof (cases scopesArray)
    case None
    with 2 show ?thesis by simp
  next
    case (Some refs)
    show ?thesis
    proof (cases refs)
      case Nil
      with Some 2 show ?thesis by simp
    next
      case one: (Cons s0 more1)
      show ?thesis
      proof (cases more1)
        case Nil
        with one Some 2 show ?thesis by auto
      next
        case two: (Cons s1 more2)
        show ?thesis
        proof (cases more2)
          case Nil
          with two one Some 2 show ?thesis by auto
        next
          case (Cons s2 more3)
          with two one Some 2 show ?thesis by simp
        qed
      qed
    qed
  qed
qed

text \<open>
  C7. Once the search has returned its three-tuples (it throws only for a search string
  with no word, or for a missing token list), \<^verbatim>\<open>origLFromGLQuote\<close> is decided by the
  matched words: the wordLike words of the verse, in their order, for which some three-tuple
  has one or two scopes of which one contains \<^verbatim>\<open>/word:\<close>. It returns \<^verbatim>\<open>{ data }\<close> with
  these words exactly when there is at least one, and \<^verbatim>\<open>{ error }\<close> exactly when there is
  none; the error string then embeds the search string, the occurrence, the dump of the
  gloss tokens, the three-tuples and the dump of the original-language tokens.
\<close>

theorem data_exactly_when_matched:
  assumes "searchULTWordRecords s (Some ULTTokens) = Inr triples"
  shows "let origL = slimSourceTokens E (filter (\<lambda>t. subType t = wordLike) src);
             matched =
               filter (\<lambda>w. \<exists>t\<in>set triples. \<exists>refs. snd (snd t) = Some refs
                            \<and> (length refs = 1 \<or> length refs = 2)
                            \<and> (\<exists>r\<in>set refs. sublist (str ''/'' @ w @ str '':'') r))
                 (map payload origL);
             res = origLFromGLQuote E book cv (Some src) (Some ULTTokens) s occ
         in (matched \<noteq> [] \<and> res = Inr (Data matched))
            \<or> (matched = []
                \<and> (\<exists>msg. res = Inr (Error msg)
                      \<and> msg = emptyMatchMessage E book cv ULTTokens s occ triples origL
                      \<and> sublist s msg \<and> sublist occ msg
                      \<and> sublist (stringifyULTTokens E ULTTokens) msg
                      \<and> sublist (join (str '','') (map threeTupleToString triples)) msg
                      \<and> sublist (stringifySourceTokens E origL) msg))"
proof -
  have "origLQuoteWords ws triples =
          filter (\<lambda>w. \<exists>t\<in>set triples. \<exists>refs. snd (snd t) = Some refs
                        \<and> (length refs = 1 \<or> length refs = 2)
                        \<and> (\<exists>r\<in>set refs. sublist (str ''/'' @ w @ str '':'') r)) ws" for ws
    by (simp add: origLQuoteWords_def pushesWord_iff includesStr_iff_sublist searchOrigLWord_def)
  with assms show ?thesis
    by (simp add: origLFromGLQuote_def Let_def emptyMatchMessage_embeds)
qed

theorem data_exactly_when_matched_witness:
  "searchULTWordRecords (str ''the poor'')
     (Some (map restOfToken [t\<leftarrow>the (sampleULT (str ''5:4'')). subType t = wordLike]))
   = Inr [(str ''the'', False, Some [str ''x-align/hoi:1'']),
          (str ''poor'', False, Some [str ''x-align/ptochoi:1''])]
   \<and> origLFromGLQuote (sampleExternals []) (str ''MAT'') (str ''5:4'')
        (Some (the (sampleUGNT (str ''5:4''))))
        (Some (map restOfToken [t\<leftarrow>the (sampleULT (str ''5:4'')). subType t = wordLike]))
        (str ''the poor'') (str ''1'')
      = Inr (Data [str ''hoi'', str ''ptochoi''])
   \<and> searchULTWordRecords (str ''the poor'')
        (Some (map restOfToken [t\<leftarrow>the (sampleULT (str ''5:3'')). subType t = wordLike]))
      = Inr []
   \<and> origLFromGLQuote (sampleExternals []) (str ''MAT'') (str ''5:3'')
        (Some (the (sampleUGNT (str ''5:3''))))
        (Some (map restOfToken [t\<leftarrow>the (sampleULT (str ''5:3'')). subType t = wordLike]))
        (str ''the poor'') (str ''1'')
      = Inr (Error (emptyMatchMessage (sampleExternals []) (str ''MAT'') (str ''5:3'')
                      (map restOfToken [t\<leftarrow>the (sampleULT (str ''5:3'')). subType t = wordLike])
                      (str ''the poor'') (str ''1'') [] (the (sampleUGNT (str ''5:3'')))))
   \<and> sublist (str ''the poor'')
        (emptyMatchMessage (sampleExternals []) (str ''MAT'') (str ''5:3'')
           (map restOfToken [t\<leftarrow>the (sampleULT (str ''5:3'')). subType t = wordLike])
           (str ''the poor'') (str ''1'') [] (the (sampleUGNT (str ''5:3''))))"
proof -
  let ?ult4 = "map restOfToken [t\<leftarrow>the (sampleULT (str ''5:4'')). subType t = wordLike]"
  let ?ult3 = "map restOfToken [t\<leftarrow>the (sampleULT (str ''5:3'')). subType t = wordLike]"
  have search4: "searchULTWordRecords (str ''the poor'') (Some ?ult4)
      = Inr [(str ''the'', False, Some [str ''x-align/hoi:1'']),
             (str ''poor'', False, Some [str ''x-align/ptochoi:1''])]"
    by (simp add: restOfToken_def sample_defs string_defs search_defs)
  have search3: "searchULTWordRecords (str ''the poor'') (Some ?ult3) = Inr []"
    by (simp add: restOfToken_def sample_defs string_defs search_defs)
  have src4: "the (sampleUGNT (str ''5:4'')) =
      [sampleToken wordLike ''hoi'' [], sampleToken wordLike ''ptochoi'' [],
       sampleToken wordLike ''penthountes'' []]"
    by (simp add: sampleUGNT_def str_def)
  have named: "sublist (str ''/'' @ str ''hoi'' @ str '':'') (str ''x-align/hoi:1'')"
    "sublist (str ''/'' @ str ''ptochoi'' @ str '':'') (str ''x-align/ptochoi:1'')"
    "\<not> sublist (str ''/'' @ str ''hoi'' @ str '':'') (str ''x-align/ptochoi:1'')"
    "\<not> sublist (str ''/'' @ str ''ptochoi'' @ str '':'') (str ''x-align/hoi:1'')"
    "\<not> sublist (str ''/'' @ str ''penthountes'' @ str '':'') (str ''x-align/hoi:1'')"
    "\<not> sublist (str ''/'' @ str ''penthountes'' @ str '':'') (str ''x-align/ptochoi:1'')"
    by (simp_all add: includesStr_iff_sublist [symmetric] str_def)
  from data_exactly_when_matched [OF search4, of "sampleExternals []"
      "the (sampleUGNT (str ''5:4''))" "str ''MAT''" "str ''5:4''" "str ''1''"]
  have data: "origLFromGLQuote (sampleExternals []) (str ''MAT'') (str ''5:4'')
        (Some (the (sampleUGNT (str ''5:4'')))) (Some ?ult4) (str ''the poor'') (str ''1'')
      = Inr (Data [str ''hoi'', str ''ptochoi''])"
    using named
    by (simp add: Let_def src4 sampleExternals_def sampleToken_def)
  from data_exactly_when_matched [OF search3, of "sampleExternals []"
      "the (sampleUGNT (str ''5:3''))" "str ''MAT''" "str ''5:3''" "str ''1''"]
  have err: "origLFromGLQuote (sampleExternals []) (str ''MAT'') (str ''5:3'')
        (Some (the (sampleUGNT (str ''5:3'')))) (Some ?ult3) (str ''the poor'') (str ''1'')
      = Inr (Error (emptyMatchMessage (sampleExternals []) (str ''MAT'') (str ''5:3'') ?ult3
                      (str ''the poor'') (str ''1'') [] (the (sampleUGNT (str ''5:3'')))))"
    and embeds: "sublist (str ''the poor'')
        (emptyMatchMessage (sampleExternals []) (str ''MAT'') (str ''5:3'') ?ult3
           (str ''the poor'') (str ''1'') [] (the (sampleUGNT (str ''5:3''))))"
    by (simp_all add: Let_def sampleExternals_def sampleUGNT_def sampleToken_def str_def)
  from search4 data search3 err embeds show ?thesis
    by simp
qed

section \<open>The loop over the verses\<close>

lemma resolveVerses_skips_failed:
  assumes "\<forall>v\<in>set failed. \<exists>m.
             resolveVerse E tokenLookup testament book (chapter @ str '':'' @ numberToString v)
               q occ = Inr (Error m)"
    and "rest \<noteq> []"
  shows "resolveVerses E tokenLookup testament book r q occ chapter (failed @ rest) st =
         resolveVerses E tokenLookup testament book r q occ chapter rest st"
  using assms
  by (induction failed) (auto simp: Let_def)

text \<open>
  The verses of a row are tried in order. When the verses before \<open>verse\<close> all return
  \<^verbatim>\<open>{ error }\<close> and \<open>verse\<close> resolves, the row is committed as a pass with the
  projection of \<open>verse\<close>, the verses after it are not looked at, and \<open>errors\<close> is left
  as it was. A failure is committed only by the last verse, after all the others returned
  \<^verbatim>\<open>{ error }\<close>, and it records the error of that last verse alone. The same is then
  said of the row, and of a run on a table of one row.
\<close>

lemma resolveVerses_first_resolving_verse:
  assumes "\<forall>v\<in>set failed. \<exists>m.
             resolveVerse E tokenLookup testament book (chapter @ str '':'' @ numberToString v)
               q occ = Inr (Error m)"
  shows "(resolveVerse E tokenLookup testament book
            (chapter @ str '':'' @ numberToString verse) q occ = Inr (Data d)
          \<longrightarrow> resolveVerses E tokenLookup testament book r q occ chapter
                (failed @ verse # rest) st
              = Inr (st\<lparr>countsPass := countsPass st + 1,
                        outputRows := outputRows st
                          @ [tsvRecordToString E (r\<lparr>quote := Some (getTidiedData d)\<rparr>)]\<rparr>))
       \<and> (resolveVerse E tokenLookup testament book
            (chapter @ str '':'' @ numberToString verse) q occ = Inr (Error m)
          \<longrightarrow> resolveVerses E tokenLookup testament book r q occ chapter (failed @ [verse]) st
              = Inr (st\<lparr>outputRows := outputRows st
                          @ [tsvRecordToString E (r\<lparr>quote := Some (QUOTE_NOT_FOUND @ q)\<rparr>)],
                        countsFail := countsFail st + 1,
                        errors := errors st
                          @ [failureMessage book (chapter @ str '':'' @ numberToString verse)
                               r m]\<rparr>))"
proof -
  have "resolveVerses E tokenLookup testament book r q occ chapter (failed @ verse # vs) st =
        resolveVerses E tokenLookup testament book r q occ chapter (verse # vs) st" for vs
    using assms by (rule resolveVerses_skips_failed) simp
  then show ?thesis
    by (simp add: Let_def)
qed

lemma processRecord_first_resolving_verse:
  assumes "\<not> passedThrough r"
    and "ref r = Some rf" and "quote r = Some q0" and "occurrence r = Some occ"
    and "splitOn (\<lambda>c. c = 58) rf = chap # verseRef # others"
    and "versesOfRef verseRef = failed @ verse # rest"
    and "\<forall>v\<in>set failed. \<exists>m.
           resolveVerse E tokenLookup testament book (chap @ str '':'' @ numberToString v)
             (removeFirst QUOTE_NOT_FOUND q0) occ = Inr (Error m)"
    and "resolveVerse E tokenLookup testament book (chap @ str '':'' @ numberToString verse)
           (removeFirst QUOTE_NOT_FOUND q0) occ = Inr (Data d)"
  shows "processRecord E tokenLookup testament book st r =
           Inr (st\<lparr>nRecords := nRecords st + 1,
                   countsPass := countsPass st + 1,
                   outputRows := outputRows st
                     @ [tsvRecordToString E (r\<lparr>quote := Some (getTidiedData d)\<rparr>)]\<rparr>)"
proof -
  let ?q = "removeFirst QUOTE_NOT_FOUND q0"
  from assms(1-6)
  have "processRecord E tokenLookup testament book st r =
          resolveVerses E tokenLookup testament book (r\<lparr>quote := Some ?q\<rparr>) ?q occ chap
            (failed @ verse # rest) (st\<lparr>nRecords := nRecords st + 1\<rparr>)"
    by (simp add: processRecord_def Let_def)
  also from resolveVerses_first_resolving_verse [OF assms(7), of verse d
      "r\<lparr>quote := Some ?q\<rparr>" rest "st\<lparr>nRecords := nRecords st + 1\<rparr>" m] assms(8)
  have "\<dots> = Inr (st\<lparr>nRecords := nRecords st + 1,
                   countsPass := countsPass st + 1,
                   outputRows := outputRows st
                     @ [tsvRecordToString E (r\<lparr>quote := Some (getTidiedData d)\<rparr>)]\<rparr>)"
    by simp
  finally show ?thesis .
qed

lemma single_row_first_resolving_verse:
  assumes "BibleBookData E (toLowerCase E book) = Some testament"
    and "parseTsvToObjects E tsvContent = [r]"
    and "\<not> passedThrough r"
    and "ref r = Some rf" and "quote r = Some q0" and "occurrence r = Some occ"
    and "splitOn (\<lambda>c. c = 58) rf = chap # verseRef # others"
    and "versesOfRef verseRef = failed @ verse # rest"
    and "\<forall>v\<in>set failed. \<exists>m.
           resolveVerse E tokenLookup testament book (chap @ str '':'' @ numberToString v)
             (removeFirst QUOTE_NOT_FOUND q0) occ = Inr (Error m)"
    and "resolveVerse E tokenLookup testament book (chap @ str '':'' @ numberToString verse)
           (removeFirst QUOTE_NOT_FOUND q0) occ = Inr (Data d)"
  shows "tsv7_ult_quotes_to_origl_quotes E tokenLookup book tsvContent =
           Inr ([tsvRecordToString E (r\<lparr>quote := Some (getTidiedData d)\<rparr>)], [])"
  using processRecord_first_resolving_verse [OF assms(3-10), of
      "\<lparr>outputRows = [], errors = [], nRecords = 0, countsPass = 0, countsFail = 0\<rparr>"]
    assms(1,2)
  by (simp add: tsv7_ult_quotes_to_origl_quotes_def)

section \<open>The occurrence field\<close>

lemma rel_sum_cases:
  assumes "rel_sum R S x y"
  obtains (Left) a b where "x = Inl a" "y = Inl b" "R a b"
    | (Right) a b where "x = Inr a" "y = Inr b" "S a b"
  using assms
  by (cases x; cases y) auto

lemma same_cases:
  assumes "rel_sum (=) sameOutcome x y"
  obtains (Rejected) e where "x = Inl e" "y = Inl e"
    | (HasData) d where "x = Inr (Data d)" "y = Inr (Data d)"
    | (HasError) m m' where "x = Inr (Error m)" "y = Inr (Error m')"
  using assms
  by (cases x; cases y) (auto simp: sameOutcome_def split: resultObject.splits)

lemma origLFromGLQuote_same:
  "rel_sum (=) sameOutcome
     (origLFromGLQuote E book cv sourceTokens ULTTokens s occ1)
     (origLFromGLQuote E book cv sourceTokens ULTTokens s occ2)"
  by (simp add: origLFromGLQuote_def Let_def sameOutcome_def split: sum.splits option.splits)

lemma convertParts_same:
  assumes res: "\<And>s. rel_sum (=) sameOutcome (f1 s) (f2 s)"
  shows "rel_option sameOutcome ro1 ro2 \<Longrightarrow>
         rel_sum (=) (rel_prod (rel_option sameOutcome) (=))
           (convertParts f1 parts ro1 pc) (convertParts f2 parts ro2 pc)"
proof (induction parts arbitrary: ro1 ro2 pc)
  case Nil
  then show ?case by simp
next
  case (Cons part rest)
  have data: "rel_option sameOutcome (Some (Data d)) (Some (Data d))" for d
    by (simp add: sameOutcome_def)
  from res [of part] show ?case
  proof (cases rule: same_cases)
    case (Rejected e)
    then show ?thesis by simp
  next
    case (HasData d)
    with Cons.IH [OF data] show ?thesis by simp
  next
    case first: (HasError m m')
    from res [of "upperFirstLetter part"] show ?thesis
    proof (cases rule: same_cases)
      case (Rejected e)
      with first show ?thesis by simp
    next
      case (HasData d)
      with first Cons.IH [OF data] show ?thesis by simp
    next
      case (HasError n n')
      with first show ?thesis by (simp add: sameOutcome_def)
    qed
  qed
qed

lemma tryQuotes_same:
  assumes res: "\<And>s. rel_sum (=) sameOutcome (f1 s) (f2 s)"
  shows "rel_option sameOutcome ro1 ro2 \<Longrightarrow>
         rel_sum (=) (rel_option sameOutcome) (tryQuotes f1 qs ro1) (tryQuotes f2 qs ro2)"
proof (induction qs arbitrary: ro1 ro2)
  case Nil
  then show ?case by simp
next
  case (Cons qt rest)
  show ?case
  proof (cases qt)
    case (QuoteString q)
    from res [of q] show ?thesis
    proof (cases rule: same_cases)
      case (Rejected e)
      with QuoteString show ?thesis by simp
    next
      case (HasData d)
      with QuoteString show ?thesis by (simp add: sameOutcome_def)
    next
      case (HasError m m')
      have "rel_option sameOutcome (Some (Error m)) (Some (Error m'))"
        by (simp add: sameOutcome_def)
      from Cons.IH [OF this] HasError QuoteString show ?thesis by simp
    qed
  next
    case (QuoteParts parts)
    have "rel_sum (=) (rel_prod (rel_option sameOutcome) (=))
            (convertParts f1 parts ro1 []) (convertParts f2 parts ro2 [])"
      using res Cons.prems by (rule convertParts_same)
    then show ?thesis
    proof (cases rule: rel_sum_cases)
      case (Left e e')
      with QuoteParts show ?thesis by simp
    next
      case Inr: (Right a b)
      obtain ro1' pc1 where a: "a = (ro1', pc1)" by (cases a)
      obtain ro2' pc2 where b: "b = (ro2', pc2)" by (cases b)
      from Inr a b have rel: "rel_option sameOutcome ro1' ro2'" and pc: "pc1 = pc2"
        by simp_all
      show ?thesis
      proof (cases "length pc1 = length parts")
        case True
        from rel show ?thesis
        proof (cases rule: option.rel_cases)
          case None
          with True Inr a b pc QuoteParts show ?thesis by simp
        next
          case (Some x y)
          with True Inr a b pc QuoteParts show ?thesis by (simp add: sameOutcome_def)
        qed
      next
        case False
        with Cons.IH [OF rel] Inr a b pc QuoteParts show ?thesis by simp
      qed
    qed
  qed
qed

lemma resolveVerse_same:
  "rel_sum (=) sameOutcome
     (resolveVerse E tokenLookup testament book cv q occ1)
     (resolveVerse E tokenLookup testament book cv q occ2)"
proof -
  have none: "rel_option sameOutcome None None"
    by simp
  have "rel_sum (=) sameOutcome
          (case tryQuotes (\<lambda>s. origLFromGLQuote E book cv src ult s occ1) (quotesToTry q) None of
             Inl e \<Rightarrow> Inl e | Inr None \<Rightarrow> Inl TypeError | Inr (Some r) \<Rightarrow> Inr r)
          (case tryQuotes (\<lambda>s. origLFromGLQuote E book cv src ult s occ2) (quotesToTry q) None of
             Inl e \<Rightarrow> Inl e | Inr None \<Rightarrow> Inl TypeError | Inr (Some r) \<Rightarrow> Inr r)"
    for src ult
    using tryQuotes_same [of "\<lambda>s. origLFromGLQuote E book cv src ult s occ1"
        "\<lambda>s. origLFromGLQuote E book cv src ult s occ2" None None "quotesToTry q",
        OF origLFromGLQuote_same none]
    by (auto elim!: rel_sum_cases option.rel_cases)
  then show ?thesis
    by (simp add: resolveVerse_def Let_def split: sum.splits)
qed

lemma resolveVerses_same:
  "rel_sum (=)
     (\<lambda>st1 st2. \<exists>qs.
        outputRows st1 = outputRows st
          @ map (\<lambda>x. tsvRecordToString E (r\<lparr>occurrence := Some occ1, quote := x\<rparr>)) qs
        \<and> outputRows st2 = outputRows st
          @ map (\<lambda>x. tsvRecordToString E (r\<lparr>occurrence := Some occ2, quote := x\<rparr>)) qs
        \<and> countsPass st1 = countsPass st2 \<and> countsFail st1 = countsFail st2
        \<and> length (errors st1) = length (errors st2) \<and> nRecords st1 = nRecords st2)
     (resolveVerses E tokenLookup testament book (r\<lparr>occurrence := Some occ1, quote := Some q\<rparr>)
        q occ1 chap verses st)
     (resolveVerses E tokenLookup testament book (r\<lparr>occurrence := Some occ2, quote := Some q\<rparr>)
        q occ2 chap verses st)"
proof (induction verses)
  case Nil
  show ?case
    by (auto intro!: exI [of _ "[]"])
next
  case (Cons verse rest)
  from resolveVerse_same [of E tokenLookup testament book
      "chap @ str '':'' @ numberToString verse" q occ1 occ2]
  show ?case
  proof (cases rule: same_cases)
    case (Rejected e)
    then show ?thesis by (simp add: Let_def)
  next
    case (HasData d)
    then show ?thesis
      by (auto simp: Let_def intro!: exI [of _ "[Some (getTidiedData d)]"])
  next
    case (HasError m m')
    show ?thesis
    proof (cases "rest = []")
      case True
      with HasError show ?thesis
        by (auto simp: Let_def intro!: exI [of _ "[Some (QUOTE_NOT_FOUND @ q)]"])
    next
      case False
      with HasError Cons.IH show ?thesis
        by (simp add: Let_def)
    qed
  qed
qed

text \<open>
  C9. Two rows that differ only in a non-empty occurrence are resolved alike: either both
  runs are rejected with the same exception, or both push the same number of rows, each
  pair of rows being the serialization of the same record with the same quote and only the
  occurrence differing; the pass and fail counters agree, and the error lists have the
  same length (their strings may differ, as they embed the occurrence).
\<close>

theorem occurrence_independent:
  assumes "occ1 \<noteq> []" and "occ2 \<noteq> []"
  shows "rel_sum (=)
     (\<lambda>st1 st2. \<exists>qs.
        outputRows st1 = outputRows st
          @ map (\<lambda>x. tsvRecordToString E (r\<lparr>occurrence := Some occ1, quote := x\<rparr>)) qs
        \<and> outputRows st2 = outputRows st
          @ map (\<lambda>x. tsvRecordToString E (r\<lparr>occurrence := Some occ2, quote := x\<rparr>)) qs
        \<and> countsPass st1 = countsPass st2 \<and> countsFail st1 = countsFail st2
        \<and> length (errors st1) = length (errors st2) \<and> nRecords st1 = nRecords st2)
     (processRecord E tokenLookup testament book st (r\<lparr>occurrence := Some occ1\<rparr>))
     (processRecord E tokenLookup testament book st (r\<lparr>occurrence := Some occ2\<rparr>))"
proof (cases "passedThrough (r\<lparr>occurrence := Some occ1\<rparr>)")
  case True
  with assms have "passedThrough (r\<lparr>occurrence := Some occ2\<rparr>)"
    by (simp add: passedThrough_def split: option.splits)
  with True show ?thesis
    by (auto simp: processRecord_def Let_def intro!: exI [of _ "[quote r]"])
next
  case False
  with assms have notThrough: "\<not> passedThrough (r\<lparr>occurrence := Some occ2\<rparr>)"
    by (simp add: passedThrough_def split: option.splits)
  from False obtain rf q0 where fields: "ref r = Some rf" "quote r = Some q0"
    by (auto simp: passedThrough_def split: option.splits)
  show ?thesis
  proof (cases "splitOn (\<lambda>c. c = 58) rf")
    case Nil
    with False notThrough fields show ?thesis
      by (simp add: processRecord_def Let_def)
  next
    case (Cons chap others)
    show ?thesis
    proof (cases others)
      case Nil
      with Cons False notThrough fields show ?thesis
        by (simp add: processRecord_def Let_def)
    next
      case inner: (Cons verseRef further)
      let ?st = "st\<lparr>nRecords := nRecords st + 1\<rparr>"
      let ?q = "removeFirst QUOTE_NOT_FOUND q0"
      have "rel_sum (=)
         (\<lambda>st1 st2. \<exists>qs.
            outputRows st1 = outputRows ?st
              @ map (\<lambda>x. tsvRecordToString E (r\<lparr>occurrence := Some occ1, quote := x\<rparr>)) qs
            \<and> outputRows st2 = outputRows ?st
              @ map (\<lambda>x. tsvRecordToString E (r\<lparr>occurrence := Some occ2, quote := x\<rparr>)) qs
            \<and> countsPass st1 = countsPass st2 \<and> countsFail st1 = countsFail st2
            \<and> length (errors st1) = length (errors st2) \<and> nRecords st1 = nRecords st2)
         (resolveVerses E tokenLookup testament book
            (r\<lparr>occurrence := Some occ1, quote := Some ?q\<rparr>) ?q occ1 chap
            (versesOfRef verseRef) ?st)
         (resolveVerses E tokenLookup testament book
            (r\<lparr>occurrence := Some occ2, quote := Some ?q\<rparr>) ?q occ2 chap
            (versesOfRef verseRef) ?st)"
        by (rule resolveVerses_same)
      with
        Cons inner False notThrough fields
      show ?thesis
        by (simp add: processRecord_def Let_def)
    qed
  qed
qed

theorem occurrence_independent_witness:
  "str ''1'' \<noteq> [] \<and> str ''2'' \<noteq> []
   \<and> rel_sum (=)
     (\<lambda>st1 st2. \<exists>qs.
        outputRows st1 = outputRows emptyState
          @ map (\<lambda>x. tsvRecordToString (sampleExternals [])
                        ((sampleRow ''5:3,4'' ''the poor'' ''7'')
                           \<lparr>occurrence := Some (str ''1''), quote := x\<rparr>)) qs
        \<and> outputRows st2 = outputRows emptyState
          @ map (\<lambda>x. tsvRecordToString (sampleExternals [])
                        ((sampleRow ''5:3,4'' ''the poor'' ''7'')
                           \<lparr>occurrence := Some (str ''2''), quote := x\<rparr>)) qs
        \<and> countsPass st1 = countsPass st2 \<and> countsFail st1 = countsFail st2
        \<and> length (errors st1) = length (errors st2) \<and> nRecords st1 = nRecords st2)
     (processRecord (sampleExternals []) sampleLookup new (str ''MAT'') emptyState
        ((sampleRow ''5:3,4'' ''the poor'' ''7'')\<lparr>occurrence := Some (str ''1'')\<rparr>))
     (processRecord (sampleExternals []) sampleLookup new (str ''MAT'') emptyState
        ((sampleRow ''5:3,4'' ''the poor'' ''7'')\<lparr>occurrence := Some (str ''2'')\<rparr>))
   \<and> map_sum id outputRows
       (processRecord (sampleExternals []) sampleLookup new (str ''MAT'') emptyState
          ((sampleRow ''5:3,4'' ''the poor'' ''7'')\<lparr>occurrence := Some (str ''2'')\<rparr>))
     = Inr [str ''5:3,4'' @ [9] @ str ''ab12'' @ [9] @ str ''hoi ptochoi'' @ [9] @ str ''2'']"
proof -
  have ne: "str ''1'' \<noteq> []" "str ''2'' \<noteq> []"
    by (simp_all add: str_def)
  have run: "map_sum id outputRows
       (processRecord (sampleExternals []) sampleLookup new (str ''MAT'') emptyState
          ((sampleRow ''5:3,4'' ''the poor'' ''7'')\<lparr>occurrence := Some (str ''2'')\<rparr>))
     = Inr [str ''5:3,4'' @ [9] @ str ''ab12'' @ [9] @ str ''hoi ptochoi'' @ [9] @ str ''2'']"
    by (simp add: row_defs resolve_defs sample_defs string_defs search_defs)
  from occurrence_independent [OF ne, of emptyState "sampleExternals []"
      "sampleRow ''5:3,4'' ''the poor'' ''7''" sampleLookup new "str ''MAT''"] ne run
  show ?thesis
    by blast
qed

section \<open>Where the code leaves its documented behaviour\<close>

subsection \<open>A match that runs into the end of the verse\<close>

text \<open>
  C2. The inner loop of \<^verbatim>\<open>searchULTWordRecords\<close> stops when the gloss tokens run out and
  leaves \<^verbatim>\<open>foundAllWords\<close> true. The wordLike gloss tokens of the sample verse 5:4 are
  \<^verbatim>\<open>who mourn the poor\<close>; the phrase \<^verbatim>\<open>the poor man\<close> is reported as found, with no
  scopes for \<^verbatim>\<open>man\<close>, although no gloss token has the payload \<^verbatim>\<open>man\<close>; and the row is
  committed as a pass.
\<close>

theorem match_cut_off_at_verse_end:
  "str ''man'' \<notin> set (map payload [t\<leftarrow>the (sampleULT (str ''5:4'')). subType t = wordLike])
   \<and> searchULTWordRecords (str ''the poor man'')
        (Some (map restOfToken [t\<leftarrow>the (sampleULT (str ''5:4'')). subType t = wordLike]))
      = Inr [(str ''the'', False, Some [str ''x-align/hoi:1'']),
             (str ''poor'', False, Some [str ''x-align/ptochoi:1'']),
             (str ''man'', False, None)]
   \<and> tsv7_ult_quotes_to_origl_quotes (sampleExternals [sampleRow ''5:4'' ''the poor man'' ''1''])
        sampleLookup (str ''MAT'') []
      = Inr ([str ''5:4'' @ [9] @ str ''ab12'' @ [9] @ str ''hoi ptochoi'' @ [9] @ str ''1''], [])"
proof (intro conjI)
  show "str ''man'' \<notin> set (map payload [t\<leftarrow>the (sampleULT (str ''5:4'')). subType t = wordLike])"
    by (simp add: sample_defs str_def)
  show "searchULTWordRecords (str ''the poor man'')
        (Some (map restOfToken [t\<leftarrow>the (sampleULT (str ''5:4'')). subType t = wordLike]))
      = Inr [(str ''the'', False, Some [str ''x-align/hoi:1'']),
             (str ''poor'', False, Some [str ''x-align/ptochoi:1'']),
             (str ''man'', False, None)]"
    by (simp add: restOfToken_def sample_defs string_defs search_defs)
  show "tsv7_ult_quotes_to_origl_quotes (sampleExternals [sampleRow ''5:4'' ''the poor man'' ''1''])
        sampleLookup (str ''MAT'') []
      = Inr ([str ''5:4'' @ [9] @ str ''ab12'' @ [9] @ str ''hoi ptochoi'' @ [9] @ str ''1''], [])"
    by (simp add: row_defs resolve_defs sample_defs string_defs search_defs)
qed

text \<open>
  What the search does guarantee: the words are compared with the gloss tokens only as far
  as the verse goes. \<open>matchesUpToEnd\<close> below is that relation between a start index and
  the search list; the search returns the empty list exactly when no start index has it.
\<close>

lemma wordsFollow_iff:
  "wordsFollow toks sl i j \<longleftrightarrow>
     (\<forall>k. i + k < length toks \<and> j + k < length sl
          \<longrightarrow> payload (toks ! (i + k)) = fst (sl ! (j + k)))"
proof (induction toks sl i j rule: wordsFollow.induct)
  case (1 toks sl i j)
  let ?P = "\<lambda>k. i + k < length toks \<and> j + k < length sl
                \<longrightarrow> payload (toks ! (i + k)) = fst (sl ! (j + k))"
  have split: "(\<forall>k. ?P k) \<longleftrightarrow> ?P 0 \<and> (\<forall>k. ?P (Suc k))"
    by (metis nat.exhaust)
  show ?case
  proof (cases "i < length toks \<and> j < length sl")
    case False
    then have "wordsFollow toks sl i j"
      by (subst wordsFollow.simps) auto
    moreover from False have "\<forall>k. ?P k"
      by auto
    ultimately show ?thesis
      by blast
  next
    case inside: True
    show ?thesis
    proof (cases "payload (toks ! i) = fst (sl ! j)")
      case False
      with inside have "\<not> wordsFollow toks sl i j"
        by (subst wordsFollow.simps) simp
      moreover from False inside have "\<not> ?P 0"
        by simp
      ultimately show ?thesis
        using split by blast
    next
      case True
      with inside have "wordsFollow toks sl i j = wordsFollow toks sl (Suc i) (Suc j)"
        by (subst wordsFollow.simps) simp
      also from "1.IH" inside True
      have "\<dots> \<longleftrightarrow> (\<forall>k. Suc i + k < length toks \<and> Suc j + k < length sl
                     \<longrightarrow> payload (toks ! (Suc i + k)) = fst (sl ! (Suc j + k)))"
        by simp
      also have "\<dots> \<longleftrightarrow> (\<forall>k. ?P (Suc k))"
        by simp
      finally show ?thesis
        using split True by simp
    qed
  qed
qed

lemma getFirstWordIndex_Some:
  "getFirstWordIndex w toks s = Some i \<Longrightarrow>
     s \<le> i \<and> i < length toks \<and> payload (toks ! i) = w"
proof (induction w toks s rule: getFirstWordIndex.induct)
  case (1 w toks s)
  from "1.prems" have unfolded:
    "(if s < length toks
      then (if payload (toks ! s) = w then Some s else getFirstWordIndex w toks (Suc s))
      else None) = Some i"
    by (subst (asm) getFirstWordIndex.simps)
  show ?case
  proof (cases "s < length toks \<and> payload (toks ! s) \<noteq> w")
    case True
    with unfolded have "getFirstWordIndex w toks (Suc s) = Some i"
      by simp
    with True "1.IH" show ?thesis
      by fastforce
  next
    case False
    with unfolded show ?thesis
      by (auto split: if_splits)
  qed
qed

lemma getFirstWordIndex_None:
  "getFirstWordIndex w toks s = None \<Longrightarrow> s \<le> i \<Longrightarrow> i < length toks
     \<Longrightarrow> payload (toks ! i) \<noteq> w"
proof (induction w toks s rule: getFirstWordIndex.induct)
  case (1 w toks s)
  from "1.prems"(1) have unfolded:
    "(if s < length toks
      then (if payload (toks ! s) = w then Some s else getFirstWordIndex w toks (Suc s))
      else None) = None"
    by (subst (asm) getFirstWordIndex.simps)
  from "1.prems" have inside: "s < length toks"
    by simp
  with unfolded have here: "payload (toks ! s) \<noteq> w"
    and later: "getFirstWordIndex w toks (Suc s) = None"
    by (auto split: if_splits)
  show ?case
  proof (cases "i = s")
    case True
    with here show ?thesis by simp
  next
    case False
    with "1.prems" have "Suc s \<le> i" by simp
    with "1.IH" inside here later "1.prems"(3) show ?thesis
      by simp
  qed
qed

lemma findStartULTIndex_Some:
  "findStartULTIndex w toks sl s = Some i \<Longrightarrow>
     s \<le> i \<and> i < length toks \<and> payload (toks ! i) = w \<and> wordsFollow toks sl (Suc i) 1"
proof (induction w toks sl s rule: findStartULTIndex.induct)
  case (1 w toks sl s)
  from "1.prems" obtain j where
    first: "getFirstWordIndex w toks s = Some j"
    by (subst (asm) findStartULTIndex.simps) (auto split: option.splits)
  note at = getFirstWordIndex_Some [OF first]
  show ?case
  proof (cases "wordsFollow toks sl (Suc j) 1")
    case True
    with first "1.prems" have "i = j"
      by (subst (asm) findStartULTIndex.simps) simp
    with at True show ?thesis by simp
  next
    case False
    with first "1.prems" have "findStartULTIndex w toks sl (Suc j) = Some i"
      by (subst (asm) findStartULTIndex.simps) simp
    from "1.IH" [OF first False this] at show ?thesis
      by simp
  qed
qed

lemma findStartULTIndex_None:
  "findStartULTIndex w toks sl s = None \<Longrightarrow> s \<le> i \<Longrightarrow> i < length toks
     \<Longrightarrow> payload (toks ! i) = w \<Longrightarrow> \<not> wordsFollow toks sl (Suc i) 1"
proof (induction w toks sl s rule: findStartULTIndex.induct)
  case (1 w toks sl s)
  show ?case
  proof (cases "getFirstWordIndex w toks s")
    case None
    from getFirstWordIndex_None [OF None "1.prems"(2,3)] "1.prems"(4) show ?thesis
      by simp
  next
    case (Some j)
    note at = getFirstWordIndex_Some [OF Some]
    from Some "1.prems"(1) have stop: "\<not> wordsFollow toks sl (Suc j) 1"
      and later: "findStartULTIndex w toks sl (Suc j) = None"
      by (subst (asm) findStartULTIndex.simps, simp split: if_splits)+
    show ?thesis
    proof (cases "i \<le> j")
      case True
      show ?thesis
      proof (cases "i = j")
        case True
        with stop show ?thesis by simp
      next
        case False
        with True have "i < j" by simp
        have "getFirstWordIndex w toks s = Some j \<Longrightarrow> s \<le> i \<Longrightarrow> i < j
                \<Longrightarrow> payload (toks ! i) \<noteq> w"
        proof (induction w toks s rule: getFirstWordIndex.induct)
          case (1 w toks s)
          from "1.prems"(1) have unfolded:
            "(if s < length toks
              then (if payload (toks ! s) = w then Some s
                    else getFirstWordIndex w toks (Suc s))
              else None) = Some j"
            by (subst (asm) getFirstWordIndex.simps)
          show ?case
          proof (cases "s < length toks \<and> payload (toks ! s) \<noteq> w")
            case True
            with unfolded have next_one: "getFirstWordIndex w toks (Suc s) = Some j"
              by simp
            show ?thesis
            proof (cases "i = s")
              case True
              with \<open>s < length toks \<and> payload (toks ! s) \<noteq> w\<close> show ?thesis by simp
            next
              case False
              with "1.prems" have "Suc s \<le> i" by simp
              with "1.IH" True next_one "1.prems"(3) show ?thesis by simp
            qed
          next
            case False
            with unfolded have "j = s"
              by (auto split: if_splits)
            with "1.prems" show ?thesis by simp
          qed
        qed
        from this [OF Some "1.prems"(2) \<open>i < j\<close>] "1.prems"(4) show ?thesis
          by simp
      qed
    next
      case False
      then have "Suc j \<le> i" by simp
      from "1.IH" [OF Some stop later this "1.prems"(3,4)] show ?thesis .
    qed
  qed
qed

lemma appendScopes_length: "length (appendScopes toks i j sl) = length sl"
proof (induction toks i j sl rule: appendScopes.induct)
  case (1 toks i j sl)
  show ?case
  proof (cases "i < length toks \<and> j < length sl")
    case True
    with "1.IH" show ?thesis
      by (subst appendScopes.simps) simp
  next
    case False
    then show ?thesis
      by (subst appendScopes.simps) auto
  qed
qed

lemma matchesUpToEnd_iff:
  assumes "sl \<noteq> []"
  shows "matchesUpToEnd toks sl i \<longleftrightarrow>
           i < length toks \<and> payload (toks ! i) = fst (hd sl) \<and> wordsFollow toks sl (Suc i) 1"
proof -
  let ?P = "\<lambda>k. k < length sl \<and> i + k < length toks
                \<longrightarrow> payload (toks ! (i + k)) = fst (sl ! k)"
  have split: "(\<forall>k. ?P k) \<longleftrightarrow> ?P 0 \<and> (\<forall>k. ?P (Suc k))"
    by (metis nat.exhaust)
  from assms have first: "?P 0 \<longleftrightarrow> (i < length toks \<longrightarrow> payload (toks ! i) = fst (hd sl))"
    by (cases sl) simp_all
  have rest: "(\<forall>k. ?P (Suc k)) \<longleftrightarrow> wordsFollow toks sl (Suc i) 1"
    by (simp add: wordsFollow_iff conj_commute)
  show ?thesis
    unfolding matchesUpToEnd_def list_all_iff
    using split first rest by auto
qed

lemma search_finds_match_up_to_end:
  assumes "searchULTWordRecords s (Some toks) = Inr triples"
  shows "triples \<noteq> [] \<longleftrightarrow>
           (\<exists>i. matchesUpToEnd toks (intermediateSearchList s) i)"
proof -
  from assms obtain first others where
    sl: "intermediateSearchList s = first # others"
    by (auto simp: searchULTWordRecords_def split: list.splits)
  let ?sl = "first # others"
  have iff: "matchesUpToEnd toks ?sl i \<longleftrightarrow>
      i < length toks \<and> payload (toks ! i) = fst first \<and> wordsFollow toks ?sl (Suc i) 1" for i
    using matchesUpToEnd_iff [of ?sl toks i] by simp
  show ?thesis
  proof (cases "findStartULTIndex (fst first) toks ?sl 0")
    case None
    with assms sl have "triples = []"
      by (simp add: searchULTWordRecords_def)
    moreover have "\<not> matchesUpToEnd toks ?sl i" for i
      using findStartULTIndex_None [OF None, of i] iff by auto
    ultimately show ?thesis
      using sl by simp
  next
    case (Some start)
    with assms sl have "triples = appendScopes toks start 0 ?sl"
      by (simp add: searchULTWordRecords_def)
    then have "length triples = length ?sl"
      by (simp add: appendScopes_length)
    then have "triples \<noteq> []"
      by auto
    moreover from findStartULTIndex_Some [OF Some] iff have "matchesUpToEnd toks ?sl start"
      by simp
    ultimately show ?thesis
      using sl by auto
  qed
qed

subsection \<open>A verse with no entry in the token table\<close>

lemma missing_tokens_throw:
  "origLFromGLQuote E book cv sourceTokens None s occ = Inl TypeError"
  "origLFromGLQuote E book cv None ULTTokens s occ = Inl TypeError"
  by (auto simp: origLFromGLQuote_def searchULTWordRecords_def
      split: list.splits option.splits sum.splits)

lemma getFirstWordIndex_empty: "getFirstWordIndex w [] i = None"
  by (simp add: getFirstWordIndex.simps)

lemma empty_gloss_verse_is_an_error:
  assumes "intermediateSearchList s \<noteq> []"
  shows "\<exists>m. origLFromGLQuote E book cv (Some src) (Some []) s occ = Inr (Error m)"
proof -
  from assms have "searchULTWordRecords s (Some []) = Inr []"
    by (simp add: searchULTWordRecords_def findStartULTIndex.simps getFirstWordIndex_empty
        split: list.splits)
  then show ?thesis
    by (simp add: origLFromGLQuote_def origLQuoteWords_def Let_def)
qed

text \<open>
  C3. The verse 5:5 of the sample table has empty token lists, and the row comes out tagged
  with one error recorded. The verse 5:99 has no entry: \<^verbatim>\<open>allULTTokens?.filter\<close> lets the
  \<^verbatim>\<open>undefined\<close> through, \<^verbatim>\<open>ULTTokenList.length\<close> throws, and the whole promise is
  rejected with no output at all.
\<close>

theorem missing_verse_rejects_the_run:
  "sampleULT (str ''5:99'') = None
   \<and> tsv7_ult_quotes_to_origl_quotes (sampleExternals [sampleRow ''5:99'' ''the poor'' ''1''])
        sampleLookup (str ''MAT'') []
      = Inl TypeError
   \<and> map_sum id fst
        (tsv7_ult_quotes_to_origl_quotes (sampleExternals [sampleRow ''5:5'' ''the poor'' ''1''])
           sampleLookup (str ''MAT'') [])
      = Inr [str ''5:5'' @ [9] @ str ''ab12'' @ [9] @ str ''QUOTE_NOT_FOUND: the poor'' @ [9]
             @ str ''1'']"
proof (intro conjI)
  show "sampleULT (str ''5:99'') = None"
    by (simp add: sample_defs str_def)
  show "tsv7_ult_quotes_to_origl_quotes (sampleExternals [sampleRow ''5:99'' ''the poor'' ''1''])
        sampleLookup (str ''MAT'') [] = Inl TypeError"
    by (simp add: row_defs resolve_defs sample_defs string_defs search_defs)
  show "map_sum id fst
        (tsv7_ult_quotes_to_origl_quotes (sampleExternals [sampleRow ''5:5'' ''the poor'' ''1''])
           sampleLookup (str ''MAT'') [])
      = Inr [str ''5:5'' @ [9] @ str ''ab12'' @ [9] @ str ''QUOTE_NOT_FOUND: the poor'' @ [9]
             @ str ''1'']"
    by (simp add: row_defs resolve_defs sample_defs string_defs search_defs)
qed

lemma resolveVerse_throws_without_entry:
  assumes "tokenLookup (str ''ult'') = Some documents"
    and "documents (toUpperCase E book) = Some verses"
    and "verses cv = None"
  shows "resolveVerse E tokenLookup testament book cv q occ = Inl TypeError"
proof -
  have "tryQuotes (\<lambda>s. origLFromGLQuote E book cv src None s occ) (quotesToTry q) None
        = Inl TypeError" for src
    by (simp add: quotesToTry_def Let_def missing_tokens_throw)
  with assms show ?thesis
    by (simp add: resolveVerse_def lookupVerse_def Let_def split: option.splits sum.splits)
qed

lemma resolveVerses_throws_at_missing_verse:
  assumes "\<forall>v\<in>set failed. \<exists>m.
             resolveVerse E tokenLookup testament book (chap @ str '':'' @ numberToString v)
               q occ = Inr (Error m)"
    and "resolveVerse E tokenLookup testament book (chap @ str '':'' @ numberToString verse)
           q occ = Inl e"
  shows "resolveVerses E tokenLookup testament book r q occ chap (failed @ verse # rest) st
         = Inl e"
proof -
  have "resolveVerses E tokenLookup testament book r q occ chap (failed @ verse # rest) st =
        resolveVerses E tokenLookup testament book r q occ chap (verse # rest) st"
    using assms(1) by (rule resolveVerses_skips_failed) simp
  with assms(2) show ?thesis
    by (simp add: Let_def)
qed

text \<open>
  C5. For verses that fail with \<^verbatim>\<open>{ error }\<close> the loop does what the claim says (the three
  lemmas of the section on the loop over the verses, and the reference \<^verbatim>\<open>5:3,4\<close> below:
  verse 3 fails, verse 4 wins, and \<open>errors\<close> stays empty). But a candidate verse with no
  entry in the token table does not fail, it throws: for the reference \<^verbatim>\<open>5:99,4\<close> the
  verse 4 resolves, yet it is never tried, and the whole promise is rejected.
\<close>

theorem missing_earlier_verse_rejects_the_run:
  "versesOfRef (str ''99,4'') = [Some 99, Some 4]
   \<and> resolveVerse (sampleExternals []) sampleLookup new (str ''MAT'') (str ''5:99'')
        (str ''the poor'') (str ''1'')
      = Inl TypeError
   \<and> resolveVerse (sampleExternals []) sampleLookup new (str ''MAT'') (str ''5:4'')
        (str ''the poor'') (str ''1'')
      = Inr (Data [str ''hoi'', str ''ptochoi''])
   \<and> tsv7_ult_quotes_to_origl_quotes (sampleExternals [sampleRow ''5:99,4'' ''the poor'' ''1''])
        sampleLookup (str ''MAT'') []
      = Inl TypeError
   \<and> tsv7_ult_quotes_to_origl_quotes (sampleExternals [sampleRow ''5:3,4'' ''the poor'' ''1''])
        sampleLookup (str ''MAT'') []
      = Inr ([str ''5:3,4'' @ [9] @ str ''ab12'' @ [9] @ str ''hoi ptochoi'' @ [9] @ str ''1''],
             [])"
proof (intro conjI)
  show "versesOfRef (str ''99,4'') = [Some 99, Some 4]"
    by (simp add: row_defs string_defs)
  show "resolveVerse (sampleExternals []) sampleLookup new (str ''MAT'') (str ''5:99'')
        (str ''the poor'') (str ''1'') = Inl TypeError"
    by (simp add: resolve_defs sample_defs string_defs search_defs)
  show "resolveVerse (sampleExternals []) sampleLookup new (str ''MAT'') (str ''5:4'')
        (str ''the poor'') (str ''1'') = Inr (Data [str ''hoi'', str ''ptochoi''])"
    by (simp add: resolve_defs sample_defs string_defs search_defs)
  show "tsv7_ult_quotes_to_origl_quotes
        (sampleExternals [sampleRow ''5:99,4'' ''the poor'' ''1'']) sampleLookup (str ''MAT'') []
      = Inl TypeError"
    by (simp add: row_defs resolve_defs sample_defs string_defs search_defs)
  show "tsv7_ult_quotes_to_origl_quotes
        (sampleExternals [sampleRow ''5:3,4'' ''the poor'' ''1'']) sampleLookup (str ''MAT'') []
      = Inr ([str ''5:3,4'' @ [9] @ str ''ab12'' @ [9] @ str ''hoi ptochoi'' @ [9] @ str ''1''],
             [])"
    by (simp add: row_defs resolve_defs sample_defs string_defs search_defs)
qed

subsection \<open>A reference that expands to no verse\<close>

text \<open>
  C1. The reference \<^verbatim>\<open>5:4-3\<close> has a hyphen, and the loop from 4 up to 3 pushes no verse;
  the loop over the verses then has no turn, so neither branch that pushes a row is
  reached: one row goes in and none comes out.
\<close>

theorem row_without_verses_is_dropped:
  "versesOfRef (str ''4-3'') = []
   \<and> length (parseTsvToObjects (sampleExternals [sampleRow ''5:4-3'' ''the poor'' ''1'']) []) = 1
   \<and> tsv7_ult_quotes_to_origl_quotes (sampleExternals [sampleRow ''5:4-3'' ''the poor'' ''1''])
        sampleLookup (str ''MAT'') []
      = Inr ([], [])"
proof (intro conjI)
  show "versesOfRef (str ''4-3'') = []"
    by (simp add: row_defs string_defs)
  show "length (parseTsvToObjects (sampleExternals [sampleRow ''5:4-3'' ''the poor'' ''1'']) [])
        = 1"
    by (simp add: sampleExternals_def)
  show "tsv7_ult_quotes_to_origl_quotes (sampleExternals [sampleRow ''5:4-3'' ''the poor'' ''1''])
        sampleLookup (str ''MAT'') [] = Inr ([], [])"
    by (simp add: row_defs resolve_defs sample_defs string_defs search_defs)
qed

text \<open>
  Apart from such rows the count is right: a run that is not rejected pushes one row for
  every input row but the verseless ones.
\<close>

lemma resolveVerses_one_row:
  assumes "resolveVerses E tokenLookup testament book r q occ chap verses st = Inr st'"
    and "verses \<noteq> []"
  shows "length (outputRows st') = Suc (length (outputRows st))"
  using assms
proof (induction verses)
  case Nil
  then show ?case by simp
next
  case (Cons verse rest)
  then show ?case
    by (cases "rest = []")
      (auto simp: Let_def split: sum.splits resultObject.splits if_splits)
qed

lemma processRecord_rows:
  assumes "processRecord E tokenLookup testament book st r = Inr st'"
  shows "length (outputRows st') =
           (if verseless r then length (outputRows st) else Suc (length (outputRows st)))"
proof (cases "passedThrough r")
  case True
  with assms show ?thesis
    by (auto simp: processRecord_def verseless_def Let_def)
next
  case False
  then obtain rf q0 occ where
    fields: "ref r = Some rf" "quote r = Some q0" "occurrence r = Some occ"
    by (auto simp: passedThrough_def split: option.splits)
  from assms False fields obtain chap verseRef further where
    split: "splitOn (\<lambda>c. c = 58) rf = chap # verseRef # further"
    by (auto simp: processRecord_def Let_def split: list.splits)
  let ?q = "removeFirst QUOTE_NOT_FOUND q0"
  from assms False fields split
  have run: "resolveVerses E tokenLookup testament book (r\<lparr>quote := Some ?q\<rparr>) ?q occ chap
               (versesOfRef verseRef) (st\<lparr>nRecords := nRecords st + 1\<rparr>) = Inr st'"
    by (simp add: processRecord_def Let_def)
  show ?thesis
  proof (cases "versesOfRef verseRef = []")
    case True
    with run False fields split show ?thesis
      by (auto simp: verseless_def)
  next
    case nonempty: False
    from resolveVerses_one_row [OF run nonempty] False fields split nonempty
    show ?thesis
      by (simp add: verseless_def)
  qed
qed

lemma processRecords_rows:
  assumes "processRecords E tokenLookup testament book st rows = Inr st'"
  shows "length (outputRows st') =
           length (outputRows st) + length (filter (\<lambda>r. \<not> verseless r) rows)"
  using assms
proof (induction rows arbitrary: st)
  case Nil
  then show ?case by simp
next
  case (Cons r rows)
  from Cons.prems obtain st1 where
    first: "processRecord E tokenLookup testament book st r = Inr st1" and
    rest: "processRecords E tokenLookup testament book st1 rows = Inr st'"
    by (auto split: sum.splits)
  from Cons.IH [OF rest] processRecord_rows [OF first] show ?case
    by simp
qed

lemma one_row_per_row_with_verses:
  assumes "tsv7_ult_quotes_to_origl_quotes E tokenLookup book tsvContent = Inr (out, errs)"
  shows "length out = length (filter (\<lambda>r. \<not> verseless r) (parseTsvToObjects E tsvContent))"
  using assms processRecords_rows [of E tokenLookup _ book
      "\<lparr>outputRows = [], errors = [], nRecords = 0, countsPass = 0, countsFail = 0\<rparr>"
      "parseTsvToObjects E tsvContent"]
  by (auto simp: tsv7_ult_quotes_to_origl_quotes_def split: option.splits sum.splits)

section \<open>The failure tag\<close>

lemma removeFirst_prefix:
  "pat \<noteq> [] \<Longrightarrow> removeFirst pat (pat @ rest) = rest"
  by (cases pat) simp_all

lemma resolveVerses_failed_row:
  assumes "resolveVerses E tokenLookup testament book r q occ chap verses st = Inr st'"
    and "countsFail st' \<noteq> countsFail st"
  shows "outputRows st' =
           outputRows st @ [tsvRecordToString E (r\<lparr>quote := Some (QUOTE_NOT_FOUND @ q)\<rparr>)]"
  using assms
proof (induction verses)
  case Nil
  then show ?case by simp
next
  case (Cons verse rest)
  then show ?case
    by (cases "rest = []")
      (auto simp: Let_def split: sum.splits resultObject.splits if_splits)
qed

text \<open>
  C6, as the code has it. A processed row whose quote starts with the tag has that first
  tag removed before the verses and the quotes to try are looked at: the loop over the
  verses runs on the rest of the quote. When the row fails again the tag is put back once,
  so the row comes out with exactly the quote it came in with; it carries a doubled tag
  only where the input quote did.
\<close>

theorem tag_stripped_before_retry:
  assumes "\<not> passedThrough r"
    and "quote r = Some (QUOTE_NOT_FOUND @ rest)"
    and "ref r = Some rf" and "occurrence r = Some occ"
    and "splitOn (\<lambda>c. c = 58) rf = chap # verseRef # others"
  shows "processRecord E tokenLookup testament book st r =
           resolveVerses E tokenLookup testament book (r\<lparr>quote := Some rest\<rparr>) rest occ chap
             (versesOfRef verseRef) (st\<lparr>nRecords := nRecords st + 1\<rparr>)
         \<and> (\<forall>st'. processRecord E tokenLookup testament book st r = Inr st'
                \<and> countsFail st' \<noteq> countsFail st
              \<longrightarrow> outputRows st' = outputRows st @ [tsvRecordToString E r])"
proof -
  have strip: "removeFirst QUOTE_NOT_FOUND (QUOTE_NOT_FOUND @ rest) = rest"
    by (rule removeFirst_prefix) (simp add: QUOTE_NOT_FOUND_def str_def)
  from assms strip
  have run: "processRecord E tokenLookup testament book st r =
           resolveVerses E tokenLookup testament book (r\<lparr>quote := Some rest\<rparr>) rest occ chap
             (versesOfRef verseRef) (st\<lparr>nRecords := nRecords st + 1\<rparr>)"
    by (simp add: processRecord_def Let_def)
  have restored: "r\<lparr>quote := Some (QUOTE_NOT_FOUND @ rest)\<rparr> = r"
    using assms(2) by simp
  have "outputRows st' = outputRows st @ [tsvRecordToString E r]"
    if "processRecord E tokenLookup testament book st r = Inr st'"
      and "countsFail st' \<noteq> countsFail st" for st'
    using resolveVerses_failed_row [of E tokenLookup testament book "r\<lparr>quote := Some rest\<rparr>"
        rest occ chap "versesOfRef verseRef" "st\<lparr>nRecords := nRecords st + 1\<rparr>" st']
      that run restored
    by simp
  with run show ?thesis
    by blast
qed

theorem tag_stripped_before_retry_witness:
  "\<not> passedThrough (sampleRow ''5:3'' ''QUOTE_NOT_FOUND: foo bar'' ''1'')
   \<and> quote (sampleRow ''5:3'' ''QUOTE_NOT_FOUND: foo bar'' ''1'')
       = Some (QUOTE_NOT_FOUND @ str ''foo bar'')
   \<and> splitOn (\<lambda>c. c = 58) (str ''5:3'') = str ''5'' # str ''3'' # []
   \<and> processRecord (sampleExternals []) sampleLookup new (str ''MAT'') emptyState
        (sampleRow ''5:3'' ''QUOTE_NOT_FOUND: foo bar'' ''1'')
      = resolveVerses (sampleExternals []) sampleLookup new (str ''MAT'')
          ((sampleRow ''5:3'' ''QUOTE_NOT_FOUND: foo bar'' ''1'')\<lparr>quote := Some (str ''foo bar'')\<rparr>)
          (str ''foo bar'') (str ''1'') (str ''5'') (versesOfRef (str ''3''))
          (emptyState\<lparr>nRecords := nRecords emptyState + 1\<rparr>)
   \<and> map_sum id outputRows
        (processRecord (sampleExternals []) sampleLookup new (str ''MAT'') emptyState
           (sampleRow ''5:3'' ''QUOTE_NOT_FOUND: foo bar'' ''1''))
      = Inr [str ''5:3'' @ [9] @ str ''ab12'' @ [9] @ str ''QUOTE_NOT_FOUND: foo bar'' @ [9]
             @ str ''1'']"
proof -
  let ?r = "sampleRow ''5:3'' ''QUOTE_NOT_FOUND: foo bar'' ''1''"
  have processed: "\<not> passedThrough ?r"
    by (simp add: row_defs sample_defs string_defs)
  have tagged: "quote ?r = Some (QUOTE_NOT_FOUND @ str ''foo bar'')"
    by (simp add: QUOTE_NOT_FOUND_def sample_defs str_def)
  have fields: "ref ?r = Some (str ''5:3'')" "occurrence ?r = Some (str ''1'')"
    by (simp_all add: sample_defs)
  have split: "splitOn (\<lambda>c. c = 58) (str ''5:3'') = str ''5'' # str ''3'' # []"
    by (simp add: str_def)
  note inst = tag_stripped_before_retry [OF processed tagged fields split,
      of "sampleExternals []" sampleLookup new "str ''MAT''" emptyState]
  have "\<exists>st'. processRecord (sampleExternals []) sampleLookup new (str ''MAT'') emptyState ?r
              = Inr st' \<and> countsFail st' = 1"
    by (simp add: row_defs resolve_defs sample_defs string_defs search_defs)
  then obtain st' where
    run: "processRecord (sampleExternals []) sampleLookup new (str ''MAT'') emptyState ?r
            = Inr st'"
    and failed: "countsFail st' = 1"
    by blast
  from failed have "countsFail st' \<noteq> countsFail emptyState"
    by (simp add: emptyState_def)
  with inst run have "outputRows st' =
      outputRows emptyState @ [tsvRecordToString (sampleExternals []) ?r]"
    by blast
  then have "outputRows st' =
      [str ''5:3'' @ [9] @ str ''ab12'' @ [9] @ str ''QUOTE_NOT_FOUND: foo bar'' @ [9]
       @ str ''1'']"
    by (simp add: sample_defs str_def)
  with run processed tagged split inst show ?thesis
    by simp
qed

text \<open>
  C6 as the claim words it fails on a quote that already carries the tag twice: only the
  first tag is removed, the row fails, and the quote comes out with the doubled tag.
\<close>

theorem doubled_tag_stays_doubled:
  "map_sum id fst
     (tsv7_ult_quotes_to_origl_quotes
        (sampleExternals [sampleRow ''5:3'' ''QUOTE_NOT_FOUND: QUOTE_NOT_FOUND: foo bar'' ''1''])
        sampleLookup (str ''MAT'') [])
   = Inr [str ''5:3'' @ [9] @ str ''ab12'' @ [9]
          @ str ''QUOTE_NOT_FOUND: QUOTE_NOT_FOUND: foo bar'' @ [9] @ str ''1'']"
  by (simp add: row_defs resolve_defs sample_defs string_defs search_defs)

section \<open>Quotes with an ampersand\<close>

lemma convertParts_all_data:
  assumes "\<forall>p\<in>set parts. resolve p = Inr (Data (d p))"
  shows "convertParts resolve parts ro acc =
           Inr (if parts = [] then ro else Some (Data (d (last parts))),
                acc @ map (\<lambda>p. getTidiedData (d p)) parts)"
  using assms
  by (induction parts arbitrary: ro acc) auto

lemma cleanQuoteOf_ampersand:
  assumes "AMPERSAND \<in> set q"
  shows "AMPERSAND \<notin> set (cleanQuoteOf q)"
    and "ELLIPSIS \<in> set (cleanQuoteOf q)"
    and "q \<noteq> cleanQuoteOf q"
proof -
  show none: "AMPERSAND \<notin> set (cleanQuoteOf q)"
    by (auto simp: cleanQuoteOf_def AMPERSAND_def ELLIPSIS_def)
  from assms show "ELLIPSIS \<in> set (cleanQuoteOf q)"
    by (force simp: cleanQuoteOf_def AMPERSAND_def ELLIPSIS_def)
  from assms none show "q \<noteq> cleanQuoteOf q"
    by metis
qed

text \<open>
  C10, as the code has it. Every ampersand of the quote is an ellipsis in the cleaned
  quote, so a quote with an ampersand always gets the list of its parts among the quotes to
  try. The parts come third: the cleaned quote as one string is tried first and the raw
  quote, with its ampersand as literal text, second. When these two fail and every part
  resolves, the result is the tidied parts joined with \<^verbatim>\<open> & \<close>.
\<close>

theorem ampersand_quote_variants:
  assumes "AMPERSAND \<in> set q"
  shows "AMPERSAND \<notin> set (cleanQuoteOf q)
     \<and> (\<exists>later. quotesToTry q =
           QuoteString (cleanQuoteOf q) # QuoteString q
           # QuoteParts (splitEllipsis (cleanQuoteOf q)) # QuoteParts (splitEllipsis q) # later)
     \<and> ((\<exists>m. resolve (cleanQuoteOf q) = Inr (Error m)) \<and> (\<exists>m. resolve q = Inr (Error m))
         \<and> (\<forall>p\<in>set (splitEllipsis (cleanQuoteOf q)). resolve p = Inr (Data (d p)))
         \<longrightarrow> tryQuotes resolve (quotesToTry q) None =
               Inr (Some (Data [join (str '' & '')
                                  (map (\<lambda>p. getTidiedData (d p))
                                     (splitEllipsis (cleanQuoteOf q)))])))"
proof -
  note clean = cleanQuoteOf_ampersand [OF assms]
  from clean have variants: "\<exists>later. quotesToTry q =
      QuoteString (cleanQuoteOf q) # QuoteString q
      # QuoteParts (splitEllipsis (cleanQuoteOf q)) # QuoteParts (splitEllipsis q) # later"
    by (simp add: quotesToTry_def Let_def)
  have "tryQuotes resolve (quotesToTry q) None =
          Inr (Some (Data [join (str '' & '')
                             (map (\<lambda>p. getTidiedData (d p)) (splitEllipsis (cleanQuoteOf q)))]))"
    if first: "resolve (cleanQuoteOf q) = Inr (Error m1)"
      and second: "resolve q = Inr (Error m2)"
      and parts: "\<forall>p\<in>set (splitEllipsis (cleanQuoteOf q)). resolve p = Inr (Data (d p))"
    for m1 m2
  proof -
    from variants obtain later where "quotesToTry q =
        QuoteString (cleanQuoteOf q) # QuoteString q
        # QuoteParts (splitEllipsis (cleanQuoteOf q)) # QuoteParts (splitEllipsis q) # later"
      by blast
    with first second convertParts_all_data [OF parts, of "Some (Error m2)" "[]"]
    show ?thesis
      by simp
  qed
  with clean(1) variants show ?thesis
    by blast
qed

theorem ampersand_quote_variants_witness:
  "AMPERSAND \<in> set (str ''the & poor'')
   \<and> AMPERSAND \<notin> set (cleanQuoteOf (str ''the & poor''))
   \<and> splitEllipsis (cleanQuoteOf (str ''the & poor'')) = [str ''the'', str ''poor'']
   \<and> tryQuotes
        (\<lambda>s. origLFromGLQuote (sampleExternals []) (str ''MAT'') (str ''5:4'')
               (sampleUGNT (str ''5:4''))
               (Some (map restOfToken [t\<leftarrow>the (sampleULT (str ''5:4'')). subType t = wordLike]))
               s (str ''1''))
        (quotesToTry (str ''the & poor'')) None
      = Inr (Some (Data [str ''hoi & ptochoi'']))"
proof -
  let ?resolve = "\<lambda>s. origLFromGLQuote (sampleExternals []) (str ''MAT'') (str ''5:4'')
               (sampleUGNT (str ''5:4''))
               (Some (map restOfToken [t\<leftarrow>the (sampleULT (str ''5:4'')). subType t = wordLike]))
               s (str ''1'')"
  let ?d = "\<lambda>p. if p = str ''the'' then [str ''hoi''] else [str ''ptochoi'']"
  have amp: "AMPERSAND \<in> set (str ''the & poor'')"
    by (simp add: string_defs)
  have parts: "splitEllipsis (cleanQuoteOf (str ''the & poor'')) = [str ''the'', str ''poor'']"
    by (simp add: cleanQuoteOf_def string_defs)
  have first: "\<exists>m. ?resolve (cleanQuoteOf (str ''the & poor'')) = Inr (Error m)"
    by (simp add: resolve_defs sample_defs string_defs search_defs)
  have second: "\<exists>m. ?resolve (str ''the & poor'') = Inr (Error m)"
    by (simp add: resolve_defs sample_defs string_defs search_defs)
  have each: "\<forall>p\<in>set (splitEllipsis (cleanQuoteOf (str ''the & poor''))).
      ?resolve p = Inr (Data (?d p))"
    unfolding parts
    by (simp add: resolve_defs sample_defs string_defs search_defs)
  have tidy: "join (str '' & '')
      (map (\<lambda>p. getTidiedData (?d p)) [str ''the'', str ''poor'']) = str ''hoi & ptochoi''"
    by (simp add: getTidiedData_def string_defs)
  from ampersand_quote_variants [OF amp, of ?resolve ?d] first second each
  have "AMPERSAND \<notin> set (cleanQuoteOf (str ''the & poor''))"
    and "tryQuotes ?resolve (quotesToTry (str ''the & poor'')) None =
      Inr (Some (Data [join (str '' & '')
        (map (\<lambda>p. getTidiedData (?d p)) (splitEllipsis (cleanQuoteOf (str ''the & poor''))))]))"
    by blast+
  with amp parts tidy show ?thesis
    by simp
qed

text \<open>
  C10 as the claim words it fails in two ways. Where the gloss has a token \<^verbatim>\<open>&\<close>, as in
  the sample verse 5:43, the quote \<^verbatim>\<open>love & neighbor\<close> does not resolve as the cleaned
  string and then resolves as the raw string, the ampersand matching the gloss token: the
  row comes out with the three words of the literal match. And the quote \<^verbatim>\<open>the&poor\<close>
  resolves at once as the cleaned string, whose ellipsis merely separates two words that
  must follow each other in the gloss: the row comes out as one phrase, not as two parts
  joined with \<^verbatim>\<open> & \<close>.
\<close>

theorem ampersand_matched_literally:
  "quotesToTry (str ''love & neighbor'') ! 1 = QuoteString (str ''love & neighbor'')
   \<and> tsv7_ult_quotes_to_origl_quotes
        (sampleExternals [sampleRow ''5:43'' ''love & neighbor'' ''1'']) sampleLookup
        (str ''MAT'') []
      = Inr ([str ''5:43'' @ [9] @ str ''ab12'' @ [9] @ str ''agapeseis ton plesion'' @ [9]
              @ str ''1''], [])
   \<and> tsv7_ult_quotes_to_origl_quotes
        (sampleExternals [sampleRow ''5:4'' ''the&poor'' ''1'']) sampleLookup (str ''MAT'') []
      = Inr ([str ''5:4'' @ [9] @ str ''ab12'' @ [9] @ str ''hoi ptochoi'' @ [9] @ str ''1''],
             [])"
proof (intro conjI)
  show "quotesToTry (str ''love & neighbor'') ! 1 = QuoteString (str ''love & neighbor'')"
    by (simp add: quotesToTry_def cleanQuoteOf_def Let_def string_defs)
  show "tsv7_ult_quotes_to_origl_quotes
        (sampleExternals [sampleRow ''5:43'' ''love & neighbor'' ''1'']) sampleLookup
        (str ''MAT'') []
      = Inr ([str ''5:43'' @ [9] @ str ''ab12'' @ [9] @ str ''agapeseis ton plesion'' @ [9]
              @ str ''1''], [])"
    by (simp add: row_defs resolve_defs sample_defs string_defs search_defs)
  show "tsv7_ult_quotes_to_origl_quotes
        (sampleExternals [sampleRow ''5:4'' ''the&poor'' ''1'']) sampleLookup (str ''MAT'') []
      = Inr ([str ''5:4'' @ [9] @ str ''ab12'' @ [9] @ str ''hoi ptochoi'' @ [9] @ str ''1''],
             [])"
    by (simp add: row_defs resolve_defs sample_defs string_defs search_defs)
qed

end
